theory Spec2Isabelle
  imports Complex_Main "HOL-Library.Multiset"
begin

section \<open>JavaScript values and strings\<close>

text \<open>
  The values a resolved provider call can carry. Numbers are the finite JavaScript
  numbers, modelled as exact rationals: \<open>NaN\<close>, the infinities and the rounding of
  IEEE arithmetic are outside the model (a JSON payload carries finite numbers only).
  Strings are ASCII byte strings.
\<close>

datatype jsv =
    JUndefined
  | JNull
  | JBool bool
  | JNum rat
  | JStr string
  | JObj "(string \<times> jsv) list"

text \<open>JavaScript truthiness (\<open>ToBoolean\<close>), as used by \<open>&&\<close>, \<open>||\<close> and \<open>!\<close>.\<close>

fun truthy :: "jsv \<Rightarrow> bool" where
  "truthy JUndefined = False"
| "truthy JNull = False"
| "truthy (JBool b) = b"
| "truthy (JNum x) = (x \<noteq> 0)"
| "truthy (JStr s) = (s \<noteq> [])"
| "truthy (JObj fs) = True"

text \<open>
  Property read \<open>v.k\<close> for the property names the server reads (\<open>priceInfo\<close>,
  \<open>pChange\<close>, \<open>lastPrice\<close>, \<open>info\<close>, \<open>companyName\<close>): an object gives the stored
  value or \<open>undefined\<close>, a primitive gives \<open>undefined\<close>. The server reads a property of
  \<open>null\<close> or \<open>undefined\<close> nowhere: each read is guarded by \<open>&&\<close> or \<open>?.\<close>.
\<close>

fun getProp :: "jsv \<Rightarrow> string \<Rightarrow> jsv" where
  "getProp (JObj fs) k = (case map_of fs k of Some v \<Rightarrow> v | None \<Rightarrow> JUndefined)"
| "getProp v k = JUndefined"

text \<open>\<open>typeof v === 'number'\<close>.\<close>

fun isNumber :: "jsv \<Rightarrow> bool" where
  "isNumber (JNum x) = True"
| "isNumber v = False"

fun numberOf :: "jsv \<Rightarrow> rat" where
  "numberOf (JNum x) = x"
| "numberOf v = 0"

text \<open>\<open>String.prototype.toUpperCase\<close> on ASCII letters.\<close>

definition upperChar :: "char \<Rightarrow> char" where
  "upperChar c =
     (let n = (of_char c :: nat) in if 97 \<le> n \<and> n \<le> 122 then char_of (n - 32) else c)"

definition toUpperCase :: "string \<Rightarrow> string" where
  "toUpperCase s = map upperChar s"

text \<open>\<open>s.replace(/\.NS$/, '')\<close>: a final \<open>.NS\<close> is removed, once.\<close>

definition stripNS :: "string \<Rightarrow> string" where
  "stripNS s =
     (case rev s of
        c1 # c2 # c3 # r \<Rightarrow>
          (if c1 = CHR ''S'' \<and> c2 = CHR ''N'' \<and> c3 = CHR ''.'' then rev r else s)
      | _ \<Rightarrow> s)"

text \<open>\<open>String.prototype.trim\<close> with the ASCII white space characters.\<close>

definition isSpace :: "char \<Rightarrow> bool" where
  "isSpace c = (c \<in> set [CHR 0x09, CHR 0x0A, CHR 0x0B, CHR 0x0C, CHR 0x0D, CHR '' ''])"

definition trim :: "string \<Rightarrow> string" where
  "trim s = rev (dropWhile isSpace (rev (dropWhile isSpace s)))"

section \<open>Symbol registry (\<open>preloadExcelData\<close>)\<close>

text \<open>
  A spreadsheet row as \<open>readExcelFile\<close> returns it. Only the columns \<open>Symbol\<close> and
  \<open>Industry\<close> are read; a cell is \<open>None\<close> when the row has no such property and
  otherwise the text \<open>toString()\<close> gives for its value.
\<close>

record row =
  Symbol :: "string option"
  Industry :: "string option"

text \<open>
  The module-level variables \<open>nifty500Data\<close>, \<open>industryData\<close> and \<open>allSymbolsSet\<close>.
  \<open>industryData\<close> is a JavaScript object used as a dictionary; its keys are listed in
  insertion order by \<open>Object.keys\<close> and \<open>Object.entries\<close>, so it is an association
  list with distinct keys (industry labels that are array indices or names of
  \<open>Object.prototype\<close> are outside the model).
\<close>

record registry =
  nifty500Data :: "row list"
  industryData :: "(string \<times> string list) list"
  allSymbolsSet :: "string set"

definition initialRegistry :: registry where
  "initialRegistry = \<lparr>nifty500Data = [], industryData = [], allSymbolsSet = {}\<rparr>"

definition DEFAULT_INDUSTRY_DATA :: "(string \<times> string list) list" where
  "DEFAULT_INDUSTRY_DATA =
     [(''Industrial'', [''TIMKEN'']),
      (''Financial Services'', [''PAYTM'', ''POLICYBZR'', ''PNBHOUSING'', ''POONAWALLA'']),
      (''Energy'', [''RELIANCE'']),
      (''Technology'', [''TCS'']),
      (''Infrastructure'', [''PFC'']),
      (''Consumer Services'', [''PEL''])]"

text \<open>\<open>row['Symbol']?.toString().toUpperCase().replace(/\.NS$/, '')\<close>, \<open>None\<close> for \<open>undefined\<close>.\<close>

definition rowSymbol :: "row \<Rightarrow> string option" where
  "rowSymbol r = map_option (\<lambda>s. stripNS (toUpperCase s)) (Symbol r)"

text \<open>\<open>x || d\<close> for an optional string: the default replaces \<open>undefined\<close> and \<open>''\<close>.\<close>

definition orElse :: "string option \<Rightarrow> string \<Rightarrow> string" where
  "orElse x d = (case x of None \<Rightarrow> d | Some s \<Rightarrow> if s = [] then d else s)"

text \<open>
  Lines 97 to 102: create the industry's list when it is missing and append the symbol
  unless the list includes it.
\<close>

fun pushSymbol :: "string \<Rightarrow> string \<Rightarrow> (string \<times> string list) list \<Rightarrow> (string \<times> string list) list" where
  "pushSymbol industry symbol [] = [(industry, [symbol])]"
| "pushSymbol industry symbol ((k, syms) # rest) =
     (if k = industry
      then (k, if symbol \<in> set syms then syms else syms @ [symbol]) # rest
      else (k, syms) # pushSymbol industry symbol rest)"

text \<open>The body of \<open>nifty500Data.forEach\<close>.\<close>

definition processRow :: "registry \<Rightarrow> row \<Rightarrow> registry" where
  "processRow g r =
     (let symbol = orElse (rowSymbol r) [];
          industry = orElse (map_option trim (Industry r)) ''Other''
      in if symbol \<noteq> []
         then g\<lparr>allSymbolsSet := insert symbol (allSymbolsSet g),
                industryData := pushSymbol industry symbol (industryData g)\<rparr>
         else g)"

text \<open>Both fallback paths: the default mapping replaces the index and its symbols are added.\<close>

definition useDefault :: "registry \<Rightarrow> registry" where
  "useDefault g =
     g\<lparr>industryData := DEFAULT_INDUSTRY_DATA,
       allSymbolsSet := foldl (\<lambda>S symb. insert symb S) (allSymbolsSet g)
                          (concat (map snd DEFAULT_INDUSTRY_DATA))\<rparr>"

text \<open>
  The \<open>try\<close> block of \<open>preloadExcelData\<close>; \<open>Inl\<close> is the error \<open>readExcelFile\<close> threw.
  The argument is the outcome of \<open>readExcelFile\<close>.
\<close>

definition preloadTry :: "string + row list \<Rightarrow> registry \<Rightarrow> string + registry" where
  "preloadTry src g =
     (case src of
        Inl err \<Rightarrow> Inl err
      | Inr rows \<Rightarrow>
          (let g1 = foldl processRow (g\<lparr>nifty500Data := rows, industryData := []\<rparr>) rows
           in Inr (if length (map fst (industryData g1)) = 0 then useDefault g1 else g1)))"

text \<open>\<open>preloadExcelData\<close>: the \<open>catch\<close> block handles every error of the \<open>try\<close> block.\<close>

definition preloadExcelData :: "string + row list \<Rightarrow> registry \<Rightarrow> string + registry" where
  "preloadExcelData src g =
     (case preloadTry src g of
        Inr g' \<Rightarrow> Inr g'
      | Inl err \<Rightarrow> Inr (useDefault (g\<lparr>nifty500Data := []\<rparr>)))"

text \<open>
  Lines 355 to 363: the server listens once \<open>preloadExcelData\<close> has resolved and exits
  with code 1 when it rejects.
\<close>

datatype startup = Listening registry | Exited nat

definition startServer :: "string + row list \<Rightarrow> startup" where
  "startServer src =
     (case preloadExcelData src initialRegistry of
        Inr g \<Rightarrow> Listening g
      | Inl err \<Rightarrow> Exited 1)"

section \<open>Result cache, provider and \<open>fetchEquityDetailsInBatches\<close>\<close>

definition BATCH_SIZE :: nat where "BATCH_SIZE = 50"
definition BATCH_DELAY_MS :: nat where "BATCH_DELAY_MS = 1000"
definition MAX_RETRIES :: nat where "MAX_RETRIES = 5"
definition SKIP_NIFTY500_VALIDATION :: bool where "SKIP_NIFTY500_VALIDATION = False"
definition MAX_SYMBOLS_PER_INDUSTRY :: nat where "MAX_SYMBOLS_PER_INDUSTRY = 0"

text \<open>The quote objects \<open>{ symbol, priceInfo: { pChange, lastPrice }, info: { companyName } }\<close>.\<close>

record quotePrice =
  pChange :: rat
  lastPrice :: rat

record quoteInfo =
  companyName :: jsv

record stock =
  symbol :: string
  priceInfo :: quotePrice
  info :: quoteInfo

text \<open>
  The objects stored in the cache: \<open>{ pChange, lastPrice, companyName, timestamp }\<close>
  (the first three fields carry a prefix here, the names being taken by the quote).
\<close>

record cacheEntry =
  cachedPChange :: rat
  cachedLastPrice :: rat
  cachedCompanyName :: jsv
  timestamp :: int

text \<open>
  What one call \<open>nseIndia.getEquityDetails(symbol)\<close> can do: throw a value before it
  returns a promise, return a promise that rejects with a reason, or return a promise
  that resolves to a value.
\<close>

datatype outcome = SyncThrow jsv | Rejected jsv | Resolved jsv

text \<open>
  The world outside the server. \<open>clock k\<close> is the value of the \<open>k\<close>-th evaluation of
  \<open>Date.now()\<close> (in milliseconds), \<open>getEquityDetails k symbol\<close> the outcome of the
  \<open>k\<close>-th provider call, \<open>FORCE_CACHE_BYPASS\<close> the environment switch and
  \<open>typeErrorMessage v\<close> the message of the \<open>TypeError\<close> that the engine raises when a
  property of \<open>v\<close>, being \<open>null\<close> or \<open>undefined\<close>, is read.
\<close>

record env =
  clock :: "nat \<Rightarrow> int"
  getEquityDetails :: "nat \<Rightarrow> string \<Rightarrow> outcome"
  FORCE_CACHE_BYPASS :: bool
  typeErrorMessage :: "jsv \<Rightarrow> string"

text \<open>\<open>v.message\<close> throws a \<open>TypeError\<close> exactly when \<open>v\<close> is \<open>null\<close> or \<open>undefined\<close>.\<close>

fun nullish :: "jsv \<Rightarrow> bool" where
  "nullish JUndefined = True"
| "nullish JNull = True"
| "nullish v = False"

text \<open>
  What a \<open>catch\<close> block or the handlers of a promise receive: a value thrown or given
  as a rejection reason by the provider, or a \<open>TypeError\<close> raised by the engine, with
  its message.
\<close>

datatype thrown = Thrown jsv | TypeError string

text \<open>
  Reading \<open>error.message\<close> of what was caught: \<open>Some\<close> the message of the
  \<open>TypeError\<close> this read throws, \<open>None\<close> when it throws nothing.
\<close>

fun messageReadFails :: "env \<Rightarrow> thrown \<Rightarrow> string option" where
  "messageReadFails E (Thrown v) = (if nullish v then Some (typeErrorMessage E v) else None)"
| "messageReadFails E (TypeError m) = None"

text \<open>
  The console lines of the retry loop: \<open>BatchError b a\<close> is line 200
  (\<open>Error fetching batch b, attempt a\<close>), \<open>BatchSkipped b\<close> is line 203.
\<close>

datatype event = BatchError nat nat | BatchSkipped nat

text \<open>
  The mutable state: the contents of the cache as \<open>cache.get\<close> shows them, the number
  of clock readings and of provider calls made so far, the delays of the timers awaited
  and the console lines of the retry loop, both in order. An entry that the code
  regards as fresh is younger than the 300 seconds after which the store drops it, so
  the store's own expiry never changes what the code does with a reading.
\<close>

record sys =
  cache :: "string \<rightharpoonup> cacheEntry"
  nowReads :: nat
  apiCalls :: nat
  timers :: "nat list"
  console :: "event list"

text \<open>The quote built from a cache entry (lines 140 to 144 and 282 to 286).\<close>

definition cachedStock :: "string \<Rightarrow> cacheEntry \<Rightarrow> stock" where
  "cachedStock symb c =
     \<lparr>symbol = symb,
      priceInfo = \<lparr>pChange = cachedPChange c, lastPrice = cachedLastPrice c\<rparr>,
      info = \<lparr>companyName = cachedCompanyName c\<rparr>\<rparr>"

text \<open>
  Lines 137 to 149, the loop over \<open>validSymbols\<close>. The accumulator is the state with
  \<open>results\<close>, \<open>uncachedSymbols\<close> and \<open>cacheHits\<close>. \<open>Date.now()\<close> is evaluated only
  when the cache holds an entry.
\<close>

fun cacheLoop :: "env \<Rightarrow> string list \<Rightarrow> sys \<times> stock list \<times> string list \<times> nat
    \<Rightarrow> sys \<times> stock list \<times> string list \<times> nat" where
  "cacheLoop E [] acc = acc"
| "cacheLoop E (symb # rest) (s, results, uncachedSymbols, cacheHits) =
     (case cache s symb of
        None \<Rightarrow> cacheLoop E rest (s, results, uncachedSymbols @ [symb], cacheHits)
      | Some cached \<Rightarrow>
          (let now = clock E (nowReads s);
               s1 = s\<lparr>nowReads := Suc (nowReads s)\<rparr>
           in if timestamp cached > now - 300 * 1000
              then cacheLoop E rest
                     (s1, results @ [cachedStock symb cached], uncachedSymbols, cacheHits + 1)
              else cacheLoop E rest (s1, results, uncachedSymbols @ [symb], cacheHits)))"

text \<open>
  Lines 155 to 157: \<open>for (let i = 0; i < uncachedSymbols.length; i += batchSize)\<close>.
  With \<open>batchSize = 0\<close> and a symbol to fetch the source loop does not end; the
  function below is used for a positive \<open>batchSize\<close> only.
\<close>

function sliceLoop :: "nat \<Rightarrow> string list \<Rightarrow> nat \<Rightarrow> string list list" where
  "sliceLoop batchSize xs i =
     (if i < length xs \<and> 0 < batchSize
      then take batchSize (drop i xs) # sliceLoop batchSize xs (i + batchSize)
      else [])"
  by pat_completeness auto
termination
  by (relation "measure (\<lambda>(batchSize, xs, i). length xs - i)") auto

declare sliceLoop.simps [simp del]

text \<open>
  \<open>batch.map(symbol => nseIndia.getEquityDetails(symbol)...)\<close>, line 164: the calls are
  made in the order of the batch. A call that throws ends the \<open>map\<close> with the thrown
  value (\<open>Inl\<close>); otherwise the outcome of every promise is listed with its symbol. The
  number returned is the count of provider calls after it.
\<close>

fun startAll :: "env \<Rightarrow> nat \<Rightarrow> string list \<Rightarrow> nat \<times> (jsv + (string \<times> outcome) list)" where
  "startAll E n [] = (n, Inr [])"
| "startAll E n (symb # rest) =
     (case getEquityDetails E n symb of
        SyncThrow v \<Rightarrow> (Suc n, Inl v)
      | out \<Rightarrow>
          (case startAll E (Suc n) rest of
             (n', Inl v) \<Rightarrow> (n', Inl v)
           | (n', Inr ps) \<Rightarrow> (n', Inr ((symb, out) # ps))))"

text \<open>
  Lines 166 to 170, the handlers of one promise. A resolved value gives
  \<open>{ symbol, result }\<close>. A rejection reason \<open>e\<close> goes to the \<open>catch\<close> handler, which
  reads \<open>e.message\<close> for the console: when \<open>e\<close> is \<open>null\<close> or \<open>undefined\<close> this read
  throws and the promise rejects with the \<open>TypeError\<close>; otherwise the handler gives
  \<open>{ symbol, result: null }\<close>. (\<open>startAll\<close> lists no call that threw; the last
  equation is there for completeness.)
\<close>

fun settleOne :: "env \<Rightarrow> string \<times> outcome \<Rightarrow> thrown + (string \<times> jsv)" where
  "settleOne E (symb, Resolved v) = Inr (symb, v)"
| "settleOne E (symb, Rejected e) =
     (if nullish e then Inl (TypeError (typeErrorMessage E e)) else Inr (symb, JNull))"
| "settleOne E (symb, SyncThrow v) = Inl (Thrown v)"

text \<open>
  \<open>await Promise.all(promises)\<close>, line 172: the results in the order of the batch, or
  an exception when a promise rejects (here the first rejected one in that order; all
  of them carry a \<open>TypeError\<close>).
\<close>

fun awaitAll :: "(thrown + (string \<times> jsv)) list \<Rightarrow> thrown + (string \<times> jsv) list" where
  "awaitAll [] = Inr []"
| "awaitAll (Inl t # rest) = Inl t"
| "awaitAll (Inr p # rest) = (case awaitAll rest of Inl t \<Rightarrow> Inl t | Inr ps \<Rightarrow> Inr (p # ps))"

text \<open>Lines 164 to 172 together.\<close>

definition callAll :: "env \<Rightarrow> nat \<Rightarrow> string list \<Rightarrow> nat \<times> (thrown + (string \<times> jsv) list)" where
  "callAll E n batch =
     (case startAll E n batch of
        (n', Inl v) \<Rightarrow> (n', Inl (Thrown v))
      | (n', Inr ps) \<Rightarrow> (n', awaitAll (map (settleOne E) ps)))"

text \<open>The filter of lines 174 to 176.\<close>

definition isValid :: "string \<times> jsv \<Rightarrow> bool" where
  "isValid r =
     (let result = snd r
      in truthy result \<and> truthy (getProp result ''priceInfo'') \<and>
         isNumber (getProp (getProp result ''priceInfo'') ''pChange'') \<and>
         isNumber (getProp (getProp result ''priceInfo'') ''lastPrice''))"

text \<open>
  The map of lines 177 to 186. \<open>result.info?.companyName\<close> is \<open>undefined\<close> when
  \<open>result.info\<close> is \<open>null\<close> or \<open>undefined\<close>, which \<open>getProp\<close> gives as well.
\<close>

definition toStock :: "string \<times> jsv \<Rightarrow> stock" where
  "toStock r =
     (let result = snd r;
          name = getProp (getProp result ''info'') ''companyName''
      in \<lparr>symbol = fst r,
          priceInfo =
            \<lparr>pChange = numberOf (getProp (getProp result ''priceInfo'') ''pChange''),
             lastPrice = numberOf (getProp (getProp result ''priceInfo'') ''lastPrice'')\<rparr>,
          info = \<lparr>companyName = (if truthy name then name else JStr ''Unknown'')\<rparr>\<rparr>)"

text \<open>Lines 188 to 195: one \<open>cache.set\<close> per valid result, each with its own clock reading.\<close>

fun cacheSetAll :: "env \<Rightarrow> sys \<Rightarrow> stock list \<Rightarrow> sys" where
  "cacheSetAll E s [] = s"
| "cacheSetAll E s (q # qs) =
     cacheSetAll E
       (s\<lparr>cache := (cache s)(symbol q \<mapsto>
              \<lparr>cachedPChange = pChange (priceInfo q),
               cachedLastPrice = lastPrice (priceInfo q),
               cachedCompanyName = companyName (info q),
               timestamp = clock E (nowReads s)\<rparr>),
          nowReads := Suc (nowReads s)\<rparr>) qs"

text \<open>
  The body of the \<open>try\<close> block, lines 164 to 197, up to \<open>results.push\<close>: \<open>Inl\<close> what
  it throws, otherwise the valid results, with the cache updated.
\<close>

definition tryBatch :: "env \<Rightarrow> sys \<Rightarrow> string list \<Rightarrow> sys \<times> (thrown + stock list)" where
  "tryBatch E s batch =
     (case callAll E (apiCalls s) batch of
        (n, Inl t) \<Rightarrow> (s\<lparr>apiCalls := n\<rparr>, Inl t)
      | (n, Inr batchResults) \<Rightarrow>
          (let validResults = map toStock (filter isValid batchResults)
           in (cacheSetAll E (s\<lparr>apiCalls := n\<rparr>) validResults, Inr validResults)))"

text \<open>
  The \<open>while (attempts > 0)\<close> loop of lines 162 to 208 for the batch at \<open>index\<close>; the
  fourth argument is \<open>attempts\<close>. A successful attempt appends its results and leaves
  the loop. On a failed one the \<open>catch\<close> block reads \<open>error.message\<close> for the console:
  when the value thrown is \<open>null\<close> or \<open>undefined\<close> this read throws a \<open>TypeError\<close>
  that nothing catches, and \<open>fetchEquityDetailsInBatches\<close> rejects with it (\<open>Inl\<close>, with
  the message). Otherwise the block logs, decrements \<open>attempts\<close> and, when none is left,
  logs the skip and goes back to the loop test (which then fails); with attempts left
  it waits 1000 ms.
\<close>

fun retryLoop :: "env \<Rightarrow> nat \<Rightarrow> string list \<Rightarrow> nat \<Rightarrow> sys \<times> stock list
    \<Rightarrow> sys \<times> (string + stock list)" where
  "retryLoop E index batch 0 (s, results) = (s, Inr results)"
| "retryLoop E index batch (Suc k) (s, results) =
     (case tryBatch E s batch of
        (s1, Inr validResults) \<Rightarrow> (s1, Inr (results @ validResults))
      | (s1, Inl err) \<Rightarrow>
          (case messageReadFails E err of
             Some msg \<Rightarrow> (s1, Inl msg)
           | None \<Rightarrow>
               (let s2 = s1\<lparr>console := console s1 @
                              [BatchError (index + 1) (MAX_RETRIES + 1 - Suc k)]\<rparr>
                in if k = 0
                   then retryLoop E index batch k
                          (s2\<lparr>console := console s2 @ [BatchSkipped (index + 1)]\<rparr>, results)
                   else retryLoop E index batch k
                          (s2\<lparr>timers := timers s2 @ [1000]\<rparr>, results))))"

text \<open>
  The loop over the batches, lines 159 to 212; \<open>n\<close> is \<open>batches.length\<close>. After each
  batch but the last the inter-batch delay is awaited. An exception of the retry loop
  ends the function.
\<close>

fun batchLoop :: "env \<Rightarrow> nat \<Rightarrow> nat \<Rightarrow> string list list \<Rightarrow> sys \<times> stock list
    \<Rightarrow> sys \<times> (string + stock list)" where
  "batchLoop E n index [] (s, results) = (s, Inr results)"
| "batchLoop E n index (batch # rest) acc =
     (case retryLoop E index batch MAX_RETRIES acc of
        (s1, Inl msg) \<Rightarrow> (s1, Inl msg)
      | (s1, Inr results1) \<Rightarrow>
          batchLoop E n (Suc index) rest
            (if index < n - 1 then s1\<lparr>timers := timers s1 @ [BATCH_DELAY_MS]\<rparr> else s1, results1))"

record fetched =
  results :: "stock list"
  cached :: bool

text \<open>
  \<open>fetchEquityDetailsInBatches(symbols, batchSize, forceRefresh)\<close>. The symbols are
  strings, so \<open>typeof sym === 'string'\<close> holds. The result is \<open>None\<close> where the source
  does not return (\<open>batchSize = 0\<close> with a symbol left to fetch); otherwise it is the
  state with \<open>Inr\<close> the value returned or \<open>Inl\<close> the message of the \<open>TypeError\<close> the
  promise rejects with.
\<close>

definition fetchEquityDetailsInBatches ::
    "env \<Rightarrow> registry \<Rightarrow> string list \<Rightarrow> nat \<Rightarrow> bool \<Rightarrow> sys \<Rightarrow> (sys \<times> (string + fetched)) option" where
  "fetchEquityDetailsInBatches E g symbols batchSize forceRefresh s =
     (let validSymbols = filter (\<lambda>symb. symb \<in> allSymbolsSet g \<and> trim symb \<noteq> []) symbols
      in case (if \<not> forceRefresh \<and> \<not> FORCE_CACHE_BYPASS E
               then cacheLoop E validSymbols (s, [], [], 0)
               else (s, [], validSymbols, 0)) of
           (s1, results0, uncachedSymbols, cacheHits) \<Rightarrow>
             if batchSize = 0 \<and> uncachedSymbols \<noteq> [] then None
             else (let batches = sliceLoop batchSize uncachedSymbols 0
                   in case batchLoop E (length batches) 0 batches (s1, results0) of
                        (s2, Inl msg) \<Rightarrow> Some (s2, Inl msg)
                      | (s2, Inr results2) \<Rightarrow>
                          Some (s2, Inr \<lparr>results = results2,
                                         cached = (cacheHits > 0 \<and> \<not> forceRefresh \<and>
                                                   \<not> FORCE_CACHE_BYPASS E)\<rparr>)))"

section \<open>Numbers\<close>

text \<open>
  A JavaScript number is an IEEE 754 double. The finite doubles are rationals; a sum or
  a quotient of two of them is the exact result rounded to the nearest double, to the
  one with the even significand when two are equally near. Results of magnitude
  \<open>2^1024\<close> and more, where JavaScript gives an infinity, are outside the model.
\<close>

definition pow2 :: "int \<Rightarrow> rat" where
  "pow2 e = (if 0 \<le> e then 2 ^ nat e else 1 / 2 ^ nat (- e))"

text \<open>The number of binary digits of a natural number.\<close>

function bitLength :: "nat \<Rightarrow> nat" where
  "bitLength n = (if n = 0 then 0 else Suc (bitLength (n div 2)))"
  by pat_completeness auto
termination
  by (relation "measure id") auto

declare bitLength.simps [simp del]

text \<open>The binary exponent \<open>e\<close> of a positive number \<open>a\<close>: \<open>2^e \<le> a < 2^(e+1)\<close>.\<close>

definition exponentOf :: "rat \<Rightarrow> int" where
  "exponentOf a =
     (if 1 \<le> a then int (bitLength (nat \<lfloor>a\<rfloor>)) - 1
      else - int (bitLength (nat (\<lceil>1 / a\<rceil> - 1))))"

text \<open>The nearest integer, the even one of two equally near.\<close>

definition roundHalfEven :: "rat \<Rightarrow> int" where
  "roundHalfEven y =
     (let f = \<lfloor>y\<rfloor>; r = y - of_int f
      in if r < 1 / 2 then f else if 1 / 2 < r then f + 1 else if even f then f else f + 1)"

text \<open>
  The nearest double: a multiple of \<open>2^(e - 52)\<close> for the exponent \<open>e\<close> of the number,
  of \<open>2^(-1074)\<close> in the subnormal range.
\<close>

definition roundDouble :: "rat \<Rightarrow> rat" where
  "roundDouble x =
     (if x = 0 then 0
      else (let a = \<bar>x\<bar>;
                e = max (exponentOf a) (- 1022);
                q = pow2 (e - 52)
            in sgn x * of_int (roundHalfEven (a / q)) * q))"

text \<open>\<open>x + y\<close> and \<open>x / y\<close> on doubles.\<close>

definition addDouble :: "rat \<Rightarrow> rat \<Rightarrow> rat" where
  "addDouble x y = roundDouble (x + y)"

definition divDouble :: "rat \<Rightarrow> rat \<Rightarrow> rat" where
  "divDouble x y = roundDouble (x / y)"

section \<open>Number formatting\<close>

text \<open>
  \<open>Array.prototype.sort\<close> is stable; with the comparator \<open>(a, b) => b.k - a.k\<close> it
  sorts by descending key and with \<open>(a, b) => a.k - b.k\<close> by ascending key, elements
  with equal keys keeping their order. \<open>sort_key\<close> is the stable insertion sort.
\<close>

definition sortDescending :: "('a \<Rightarrow> rat) \<Rightarrow> 'a list \<Rightarrow> 'a list" where
  "sortDescending k xs = sort_key (\<lambda>x. - k x) xs"

definition sortAscending :: "('a \<Rightarrow> rat) \<Rightarrow> 'a list \<Rightarrow> 'a list" where
  "sortAscending k xs = sort_key k xs"

definition digitChar :: "nat \<Rightarrow> char" where
  "digitChar d = ''0123456789'' ! (d mod 10)"

text \<open>The decimal digits of a natural number, without leading zeros (\<open>0\<close> for zero).\<close>

function decimal :: "nat \<Rightarrow> string" where
  "decimal n = (if n < 10 then [digitChar n] else decimal (n div 10) @ [digitChar (n mod 10)])"
  by pat_completeness auto
termination
  by (relation "measure id") auto

declare decimal.simps [simp del]

text \<open>
  The integer \<open>n\<close> of \<open>Number.prototype.toFixed(2)\<close> for a non-negative \<open>a\<close>: the one
  for which \<open>n / 100 - a\<close> is closest to zero, the larger one of two.
\<close>

definition hundredths :: "rat \<Rightarrow> nat" where
  "hundredths a = nat \<lfloor>a * 100 + 1 / 2\<rfloor>"

text \<open>
  \<open>x.toFixed(2)\<close> for a finite \<open>x\<close> of magnitude below \<open>10^21\<close> (from where on
  JavaScript switches to the exponent notation): the sign, the digits of \<open>n\<close> padded
  with zeros to three places at least, and a point before the last two.
\<close>

definition toFixed2 :: "rat \<Rightarrow> string" where
  "toFixed2 x =
     (let m = decimal (hundredths \<bar>x\<bar>);
          padded = replicate (3 - length m) (CHR ''0'') @ m;
          k = length padded - 2
      in (if x < 0 then ''-'' else []) @ take k padded @ ''.'' @ drop k padded)"

definition digitValue :: "char \<Rightarrow> nat option" where
  "digitValue c =
     (let n = (of_char c :: nat) in if 48 \<le> n \<and> n \<le> 57 then Some (n - 48) else None)"

text \<open>The longest prefix of digits: its digits and the rest of the text.\<close>

fun digitsPrefix :: "string \<Rightarrow> nat list \<times> string" where
  "digitsPrefix [] = ([], [])"
| "digitsPrefix (c # cs) =
     (case digitValue c of
        None \<Rightarrow> ([], c # cs)
      | Some d \<Rightarrow> (case digitsPrefix cs of (ds, rest) \<Rightarrow> (d # ds, rest)))"

definition digitsValue :: "nat list \<Rightarrow> nat" where
  "digitsValue ds = foldl (\<lambda>v d. 10 * v + d) 0 ds"

text \<open>
  \<open>parseFloat\<close> on texts of the form that \<open>toFixed\<close> produces: an optional minus sign,
  digits, and an optional point with digits. \<open>None\<close> stands for \<open>NaN\<close> (no digit at
  all). Exponents, white space and \<open>Infinity\<close> are outside the model.
\<close>

definition parseUnsigned :: "string \<Rightarrow> rat option" where
  "parseUnsigned t =
     (case digitsPrefix t of
        (ds, rest) \<Rightarrow>
          (case rest of
             c # cs \<Rightarrow>
               (if c = CHR ''.''
                then (case digitsPrefix cs of
                        (fs, rest') \<Rightarrow>
                          (if ds = [] \<and> fs = [] then None
                           else Some (of_nat (digitsValue ds) +
                                      of_nat (digitsValue fs) / 10 ^ length fs)))
                else (if ds = [] then None else Some (of_nat (digitsValue ds))))
           | [] \<Rightarrow> (if ds = [] then None else Some (of_nat (digitsValue ds)))))"

definition parseFloat :: "string \<Rightarrow> rat option" where
  "parseFloat t =
     (case t of
        c # cs \<Rightarrow> (if c = CHR ''-'' then map_option uminus (parseUnsigned cs) else parseUnsigned t)
      | [] \<Rightarrow> None)"

section \<open>The HTTP handlers\<close>

text \<open>\<open>avgPChange\<close> is the text \<open>toFixed(2)\<close> gives, or the number \<open>0\<close>.\<close>

datatype avg = Fixed string | Zero

record industryEntry =
  industry :: string
  avgPChange :: avg
  stockCount :: nat
  stocks :: "stock list"
  topStock :: "stock option"

record marketBody =
  gainers :: "stock list"
  losers :: "stock list"
  marketCached :: bool
  marketTimestamp :: int

record industryBody =
  industries :: "industryEntry list"
  industryCached :: bool
  industryTimestamp :: int
  warning :: "string option"

datatype body = Error string | Market marketBody | Industry industryBody

record response =
  status :: nat
  body :: body

text \<open>\<open>.filter(Boolean)\<close> on optional strings: \<open>undefined\<close> and \<open>''\<close> are dropped.\<close>

definition filterBoolean :: "string option list \<Rightarrow> string list" where
  "filterBoolean xs =
     concat (map (\<lambda>x. case x of None \<Rightarrow> [] | Some v \<Rightarrow> if v = [] then [] else [v]) xs)"

text \<open>
  Lines 233 to 238. \<open>validResults.sort\<close> sorts in place, so \<open>losers\<close> is filtered from
  the list already sorted by descending change.
\<close>

definition gainersOf :: "stock list \<Rightarrow> stock list" where
  "gainersOf validResults = take 10 (sortDescending (\<lambda>q. pChange (priceInfo q)) validResults)"

definition losersOf :: "stock list \<Rightarrow> stock list" where
  "losersOf validResults =
     take 10 (sortAscending (\<lambda>q. pChange (priceInfo q))
                (filter (\<lambda>q. pChange (priceInfo q) < 0)
                   (sortDescending (\<lambda>q. pChange (priceInfo q)) validResults)))"

text \<open>
  The handler of \<open>GET /api/market-data\<close>; the argument \<open>refresh\<close> is the query
  parameter. When \<open>fetchEquityDetailsInBatches\<close> rejects, the \<open>catch\<close> block answers
  with status 500 and the message of the error. The result is \<open>None\<close> where the
  handler sends no response.
\<close>

definition marketDataHandler :: "env \<Rightarrow> registry \<Rightarrow> string option \<Rightarrow> sys \<Rightarrow> (sys \<times> response) option" where
  "marketDataHandler E g refresh s =
     (let forceRefresh = (refresh = Some ''true'');
          symbols = filterBoolean (map rowSymbol (nifty500Data g))
      in if length symbols = 0 \<and> \<not> SKIP_NIFTY500_VALIDATION
         then Some (s, \<lparr>status = 500, body = Error ''No symbols loaded from NIFTY500.xlsx''\<rparr>)
         else (case fetchEquityDetailsInBatches E g symbols BATCH_SIZE forceRefresh s of
                 None \<Rightarrow> None
               | Some (s1, Inl msg) \<Rightarrow>
                   Some (s1, \<lparr>status = 500,
                              body = Error (''Failed to fetch market data: '' @ msg)\<rparr>)
               | Some (s1, Inr r) \<Rightarrow>
                   (if length (results r) = 0
                    then Some (s1, \<lparr>status = 500, body = Error ''No valid market data retrieved''\<rparr>)
                    else Some (s1\<lparr>nowReads := Suc (nowReads s1)\<rparr>,
                               \<lparr>status = 200,
                                body = Market
                                  \<lparr>gainers = gainersOf (results r),
                                   losers = losersOf (results r),
                                   marketCached = cached r,
                                   marketTimestamp = clock E (nowReads s1)\<rparr>\<rparr>))))"

text \<open>
  Lines 260 to 273: the list of all symbols without repetition and, for each symbol,
  its industries. \<open>symbolToIndustries\<close> is only read by key, so it is a map.
\<close>

fun indexSymbols :: "string \<Rightarrow> string list \<Rightarrow> string list \<times> (string \<rightharpoonup> string list)
    \<Rightarrow> string list \<times> (string \<rightharpoonup> string list)" where
  "indexSymbols ind [] acc = acc"
| "indexSymbols ind (sy # rest) (allSymbols, symbolToIndustries) =
     indexSymbols ind rest
       (if sy \<in> set allSymbols then allSymbols else allSymbols @ [sy],
        symbolToIndustries(sy \<mapsto>
          (case symbolToIndustries sy of None \<Rightarrow> [] | Some l \<Rightarrow> l) @ [ind]))"

fun indexIndustries :: "(string \<times> string list) list \<Rightarrow> string list \<times> (string \<rightharpoonup> string list)
    \<Rightarrow> string list \<times> (string \<rightharpoonup> string list)" where
  "indexIndustries [] acc = acc"
| "indexIndustries ((ind, syms) # rest) acc =
     indexIndustries rest
       (indexSymbols ind
          (if MAX_SYMBOLS_PER_INDUSTRY > 0 then take MAX_SYMBOLS_PER_INDUSTRY syms else syms)
          acc)"

text \<open>Lines 278 to 288: the second pass over the cache, which fetches nothing.\<close>

fun cacheOnlyLoop :: "env \<Rightarrow> string list \<Rightarrow> sys \<times> stock list \<Rightarrow> sys \<times> stock list" where
  "cacheOnlyLoop E [] acc = acc"
| "cacheOnlyLoop E (symb # rest) (s, cachedResults) =
     (case cache s symb of
        None \<Rightarrow> cacheOnlyLoop E rest (s, cachedResults)
      | Some c \<Rightarrow>
          (let now = clock E (nowReads s);
               s1 = s\<lparr>nowReads := Suc (nowReads s)\<rparr>
           in if timestamp c > now - 300 * 1000
              then cacheOnlyLoop E rest (s1, cachedResults @ [cachedStock symb c])
              else cacheOnlyLoop E rest (s1, cachedResults)))"

text \<open>The entries of \<open>industryMetrics\<close>, an object keyed by industry, in insertion order.\<close>

record metrics =
  totalPChange :: rat
  count :: nat
  memberStocks :: "stock list"

text \<open>
  Lines 307 to 320 for one stock and one of its industries; \<open>totalPChange\<close> is a sum
  of doubles.
\<close>

fun addToIndustry :: "stock \<Rightarrow> string \<Rightarrow> (string \<times> metrics) list \<Rightarrow> (string \<times> metrics) list" where
  "addToIndustry q ind [] =
     [(ind, \<lparr>totalPChange = addDouble 0 (pChange (priceInfo q)), count = 0 + 1,
             memberStocks = [] @ [q]\<rparr>)]"
| "addToIndustry q ind ((k, m) # rest) =
     (if k = ind
      then (k, \<lparr>totalPChange = addDouble (totalPChange m) (pChange (priceInfo q)),
                count = count m + 1,
                memberStocks = memberStocks m @ [q]\<rparr>) # rest
      else (k, m) # addToIndustry q ind rest)"

text \<open>The body of \<open>validResults.forEach\<close>, lines 304 to 322.\<close>

definition addStock :: "(string \<rightharpoonup> string list) \<Rightarrow> (string \<times> metrics) list \<Rightarrow> stock
    \<Rightarrow> (string \<times> metrics) list" where
  "addStock symbolToIndustries industryMetrics q =
     foldl (\<lambda>im ind. addToIndustry q ind im) industryMetrics
       (case symbolToIndustries (symbol q) of Some l \<Rightarrow> l | None \<Rightarrow> [''N/A''])"

text \<open>\<open>industryMetrics[k].stocks\<close>, the empty list when \<open>k\<close> has no entry.\<close>

definition stocksOf :: "(string \<times> metrics) list \<Rightarrow> string \<Rightarrow> stock list" where
  "stocksOf industryMetrics k =
     (case map_of industryMetrics k of Some m \<Rightarrow> memberStocks m | None \<Rightarrow> [])"

text \<open>
  The function mapped over \<open>Object.keys(industryMetrics)\<close>, lines 325 to 339. The
  quotient is a quotient of doubles; \<open>toFixed(2)\<close> then works on the exact value of
  that double.
\<close>

definition toEntry :: "string \<times> metrics \<Rightarrow> industryEntry" where
  "toEntry e =
     (let m = snd e;
          avgP = (if count m > 0
                  then Fixed (toFixed2 (divDouble (totalPChange m) (of_nat (count m))))
                  else Zero);
          sortedStocks = sortDescending (\<lambda>q. pChange (priceInfo q)) (memberStocks m)
      in \<lparr>industry = fst e,
          avgPChange = avgP,
          stockCount = count m,
          stocks = sortedStocks,
          topStock = (case sortedStocks of [] \<Rightarrow> None | q # _ \<Rightarrow> Some q)\<rparr>)"

text \<open>
  \<open>parseFloat(x.avgPChange)\<close>, the key of the final sort: the number \<open>0\<close> is turned
  into the text \<open>0\<close> first. A text without a number gives \<open>NaN\<close>, which \<open>toFixed\<close>
  never produces; the key is \<open>0\<close> there.
\<close>

definition avgKey :: "industryEntry \<Rightarrow> rat" where
  "avgKey e =
     (case avgPChange e of
        Zero \<Rightarrow> 0
      | Fixed t \<Rightarrow> (case parseFloat t of Some v \<Rightarrow> v | None \<Rightarrow> 0))"

text \<open>Lines 302 to 342: from the valid results to the sorted list of industries.\<close>

definition aggregateIndustries :: "(string \<rightharpoonup> string list) \<Rightarrow> stock list \<Rightarrow> industryEntry list" where
  "aggregateIndustries symbolToIndustries validResults =
     (let industryMetrics = foldl (addStock symbolToIndustries) [] validResults
      in sortDescending avgKey
           (filter (\<lambda>e. stockCount e > 0) (map toEntry industryMetrics)))"

text \<open>
  The handler of \<open>GET /api/industry-data\<close>. As above, the \<open>catch\<close> block answers
  with status 500 when \<open>fetchEquityDetailsInBatches\<close> rejects, and \<open>None\<close> means that
  no response is sent.
\<close>

definition industryDataHandler :: "env \<Rightarrow> registry \<Rightarrow> string option \<Rightarrow> sys \<Rightarrow> (sys \<times> response) option" where
  "industryDataHandler E g refresh s =
     (let forceRefresh = (refresh = Some ''true'')
      in if length (map fst (industryData g)) = 0
         then Some (s\<lparr>nowReads := Suc (nowReads s)\<rparr>,
                    \<lparr>status = 200,
                     body = Industry
                       \<lparr>industries = [], industryCached = False,
                        industryTimestamp = clock E (nowReads s),
                        warning = Some ''No industry data available''\<rparr>\<rparr>)
         else (case indexIndustries (industryData g) ([], Map.empty) of
                 (allSymbols, symbolToIndustries) \<Rightarrow>
           (case fetchEquityDetailsInBatches E g allSymbols BATCH_SIZE forceRefresh s of
              None \<Rightarrow> None
            | Some (s1, Inl msg) \<Rightarrow>
                Some (s1, \<lparr>status = 500,
                           body = Error (''Failed to fetch industry data: '' @ msg)\<rparr>)
            | Some (s1, Inr r) \<Rightarrow>
               (case (if length (results r) = 0
                      then (case cacheOnlyLoop E allSymbols (s1, []) of
                              (s2, cachedResults) \<Rightarrow>
                                (s2, cachedResults, length cachedResults > 0))
                      else (s1, results r, cached r)) of
                  (s3, validResults, cachedFlag) \<Rightarrow>
                    (if length validResults = 0
                     then Some (s3\<lparr>nowReads := Suc (nowReads s3)\<rparr>,
                                \<lparr>status = 200,
                                 body = Industry
                                   \<lparr>industries = [], industryCached = cachedFlag,
                                    industryTimestamp = clock E (nowReads s3),
                                    warning = Some ''No valid industry data retrieved''\<rparr>\<rparr>)
                     else Some (s3\<lparr>nowReads := Suc (nowReads s3)\<rparr>,
                                \<lparr>status = 200,
                                 body = Industry
                                   \<lparr>industries = aggregateIndustries symbolToIndustries validResults,
                                    industryCached = cachedFlag,
                                    industryTimestamp = clock E (nowReads s3),
                                    warning = None\<rparr>\<rparr>))))))"

section \<open>Sample worlds for the examples\<close>

text \<open>A well-formed provider payload with the given change, price and company name.\<close>

definition samplePayload :: "rat \<Rightarrow> rat \<Rightarrow> string \<Rightarrow> jsv" where
  "samplePayload p l name =
     JObj [(''priceInfo'', JObj [(''pChange'', JNum p), (''lastPrice'', JNum l)]),
           (''info'', JObj [(''companyName'', JStr name)])]"

text \<open>A payload whose \<open>pChange\<close> is a text, as a malformed response would have it.\<close>

definition malformedPayload :: jsv where
  "malformedPayload =
     JObj [(''priceInfo'', JObj [(''pChange'', JStr ''n/a''), (''lastPrice'', JNum 10)])]"

text \<open>The registry after a failed read of the spreadsheet.\<close>

definition fallbackRegistry :: registry where
  "fallbackRegistry =
     \<lparr>nifty500Data = [],
      industryData = DEFAULT_INDUSTRY_DATA,
      allSymbolsSet = {''TIMKEN'', ''PAYTM'', ''POLICYBZR'', ''PNBHOUSING'', ''POONAWALLA'',
                       ''RELIANCE'', ''TCS'', ''PFC'', ''PEL''}\<rparr>"

text \<open>A registry loaded from three spreadsheet rows.\<close>

definition loadedRegistry :: registry where
  "loadedRegistry =
     \<lparr>nifty500Data =
        [\<lparr>Symbol = Some ''TCS.NS'', Industry = Some ''Technology''\<rparr>,
         \<lparr>Symbol = Some ''infy'', Industry = Some ''Technology''\<rparr>,
         \<lparr>Symbol = Some ''PFC'', Industry = Some ''Infrastructure''\<rparr>],
      industryData = [(''Technology'', [''TCS'', ''INFY'']), (''Infrastructure'', [''PFC''])],
      allSymbolsSet = {''TCS'', ''INFY'', ''PFC''}\<rparr>"

text \<open>A clock that starts at one million milliseconds and advances by one with each reading.\<close>

definition sampleClock :: "nat \<Rightarrow> int" where
  "sampleClock k = 1000000 + int k"

text \<open>An error object with a message, as a provider throws or rejects with.\<close>

definition sampleError :: jsv where
  "sampleError = JObj [(''message'', JStr ''socket hang up'')]"

text \<open>The message of the engine's \<open>TypeError\<close> for a property read of \<open>null\<close> or \<open>undefined\<close>.\<close>

definition sampleTypeErrorMessage :: "jsv \<Rightarrow> string" where
  "sampleTypeErrorMessage v =
     ''Cannot read properties of '' @ (if v = JNull then ''null'' else ''undefined'')"

text \<open>
  A provider that resolves \<open>TCS\<close> with a well-formed payload, rejects \<open>PFC\<close> with an
  error, resolves \<open>INFY\<close> with a malformed payload and everything else with \<open>null\<close>.
\<close>

definition mixedProvider :: "nat \<Rightarrow> string \<Rightarrow> outcome" where
  "mixedProvider k symb =
     (if symb = ''TCS'' then Resolved (samplePayload 2 3500 ''Tata Consultancy Services'')
      else if symb = ''PFC'' then Rejected sampleError
      else if symb = ''INFY'' then Resolved malformedPayload
      else Resolved JNull)"

text \<open>
  A provider whose every call throws an error, one whose every call rejects with an
  error, one whose every call throws \<open>undefined\<close>, and one that rejects \<open>PFC\<close> with
  the reason \<open>undefined\<close> and resolves everything else well-formed.
\<close>

definition throwingProvider :: "nat \<Rightarrow> string \<Rightarrow> outcome" where
  "throwingProvider k symb = SyncThrow sampleError"

definition rejectingProvider :: "nat \<Rightarrow> string \<Rightarrow> outcome" where
  "rejectingProvider k symb = Rejected sampleError"

definition undefinedThrower :: "nat \<Rightarrow> string \<Rightarrow> outcome" where
  "undefinedThrower k symb = SyncThrow JUndefined"

definition undefinedRejecter :: "nat \<Rightarrow> string \<Rightarrow> outcome" where
  "undefinedRejecter k symb =
     (if symb = ''PFC'' then Rejected JUndefined else Resolved (samplePayload 1 10 symb))"

text \<open>A provider whose first two calls throw and whose later calls resolve well-formed.\<close>

definition flakyProvider :: "nat \<Rightarrow> string \<Rightarrow> outcome" where
  "flakyProvider k symb =
     (if k < 2 then SyncThrow sampleError else Resolved (samplePayload 1 10 symb))"

definition mixedEnv :: env where
  "mixedEnv = \<lparr>clock = sampleClock, getEquityDetails = mixedProvider,
               FORCE_CACHE_BYPASS = False, typeErrorMessage = sampleTypeErrorMessage\<rparr>"

definition throwingEnv :: env where
  "throwingEnv = \<lparr>clock = sampleClock, getEquityDetails = throwingProvider,
                  FORCE_CACHE_BYPASS = False, typeErrorMessage = sampleTypeErrorMessage\<rparr>"

definition rejectingEnv :: env where
  "rejectingEnv = \<lparr>clock = sampleClock, getEquityDetails = rejectingProvider,
                   FORCE_CACHE_BYPASS = False, typeErrorMessage = sampleTypeErrorMessage\<rparr>"

definition flakyEnv :: env where
  "flakyEnv = \<lparr>clock = sampleClock, getEquityDetails = flakyProvider,
               FORCE_CACHE_BYPASS = False, typeErrorMessage = sampleTypeErrorMessage\<rparr>"

definition undefinedThrowEnv :: env where
  "undefinedThrowEnv = \<lparr>clock = sampleClock, getEquityDetails = undefinedThrower,
                        FORCE_CACHE_BYPASS = False, typeErrorMessage = sampleTypeErrorMessage\<rparr>"

definition undefinedRejectEnv :: env where
  "undefinedRejectEnv = \<lparr>clock = sampleClock, getEquityDetails = undefinedRejecter,
                         FORCE_CACHE_BYPASS = False, typeErrorMessage = sampleTypeErrorMessage\<rparr>"

text \<open>
  A clock whose first reading is one million and whose later readings lie 400 seconds
  after it, and a world with this clock whose provider rejects everything.
\<close>

definition jumpClock :: "nat \<Rightarrow> int" where
  "jumpClock k = (if k = 0 then 1000000 else 1400000 + int k)"

definition laterEnv :: env where
  "laterEnv = \<lparr>clock = jumpClock, getEquityDetails = rejectingProvider,
               FORCE_CACHE_BYPASS = False, typeErrorMessage = sampleTypeErrorMessage\<rparr>"

text \<open>The state of a server that has just started: an empty cache and nothing done.\<close>

definition freshSys :: sys where
  "freshSys = \<lparr>cache = Map.empty, nowReads = 0, apiCalls = 0, timers = [], console = []\<rparr>"

text \<open>
  A state whose cache holds \<open>TCS\<close>, fetched at 999000 (fresh for the sample clock), and
  \<open>PFC\<close>, fetched at 1000 (older than 300 seconds).
\<close>

definition warmSys :: sys where
  "warmSys =
     \<lparr>cache = [''TCS'' \<mapsto> \<lparr>cachedPChange = 3, cachedLastPrice = 3400,
                            cachedCompanyName = JStr ''Tata Consultancy Services'',
                            timestamp = 999000\<rparr>,
               ''PFC'' \<mapsto> \<lparr>cachedPChange = - 1, cachedLastPrice = 400,
                            cachedCompanyName = JStr ''Power Finance'',
                            timestamp = 1000\<rparr>],
      nowReads = 0, apiCalls = 0, timers = [], console = []\<rparr>"

text \<open>A quote with the given symbol and change.\<close>

definition sampleQuote :: "string \<Rightarrow> rat \<Rightarrow> stock" where
  "sampleQuote symb p =
     \<lparr>symbol = symb, priceInfo = \<lparr>pChange = p, lastPrice = 100\<rparr>,
      info = \<lparr>companyName = JStr ''Unknown''\<rparr>\<rparr>"

text \<open>The symbol index of a registry whose only industry \<open>Tech\<close> has the symbols \<open>A\<close> and \<open>B\<close>.\<close>

definition techIndex :: "string \<rightharpoonup> string list" where
  "techIndex = snd (indexIndustries [(''Tech'', [''A'', ''B''])] ([], Map.empty))"

text \<open>The quotes of a call of \<open>fetchEquityDetailsInBatches\<close> that returned.\<close>

definition quotesOf :: "(sys \<times> (string + fetched)) option \<Rightarrow> stock list option" where
  "quotesOf x =
     (case x of
        None \<Rightarrow> None
      | Some (s, Inl msg) \<Rightarrow> None
      | Some (s, Inr r) \<Rightarrow> Some (results r))"

text \<open>The double nearest to 1.01, which is \<open>4548635623644201 / 2^52\<close>.\<close>

definition nearest_1_01 :: rat where
  "nearest_1_01 = 4548635623644201 / 4503599627370496"

section \<open>The registry fallback\<close>

lemma pushSymbol_nonempty: "pushSymbol ind sy m \<noteq> []"
  by (cases m) (auto split: if_splits)

lemma processRow_inv:
  "(industryData g \<noteq> [] \<longrightarrow> allSymbolsSet g \<noteq> {}) \<Longrightarrow>
   (industryData (processRow g r) \<noteq> [] \<longrightarrow> allSymbolsSet (processRow g r) \<noteq> {})"
  by (simp add: processRow_def Let_def)

lemma foldl_processRow_inv:
  "(industryData g \<noteq> [] \<longrightarrow> allSymbolsSet g \<noteq> {}) \<Longrightarrow>
   (industryData (foldl processRow g rows) \<noteq> [] \<longrightarrow> allSymbolsSet (foldl processRow g rows) \<noteq> {})"
proof (induction rows arbitrary: g)
  case Nil
  then show ?case by simp
next
  case (Cons r rows)
  have "industryData (processRow g r) \<noteq> [] \<longrightarrow> allSymbolsSet (processRow g r) \<noteq> {}"
    using Cons.prems by (rule processRow_inv)
  from Cons.IH [OF this] show ?case by simp
qed

lemma foldl_insert_set: "foldl (\<lambda>S x. insert x S) A xs = A \<union> set xs"
  by (induction xs arbitrary: A) auto

lemma useDefault_industryData: "industryData (useDefault g) = DEFAULT_INDUSTRY_DATA"
  by (simp add: useDefault_def)

lemma useDefault_allSymbols:
  "allSymbolsSet (useDefault g) = allSymbolsSet g \<union> set (concat (map snd DEFAULT_INDUSTRY_DATA))"
  by (simp add: useDefault_def foldl_insert_set)

lemma DEFAULT_nonempty: "DEFAULT_INDUSTRY_DATA \<noteq> []"
  by (simp add: DEFAULT_INDUSTRY_DATA_def)

lemma DEFAULT_symbols_nonempty: "set (concat (map snd DEFAULT_INDUSTRY_DATA)) \<noteq> {}"
  by (simp add: DEFAULT_INDUSTRY_DATA_def)

lemma preloadExcelData_total:
  "\<exists>g'. preloadExcelData src g = Inr g' \<and> industryData g' \<noteq> [] \<and> allSymbolsSet g' \<noteq> {}"
proof (cases src)
  case (Inl err)
  then show ?thesis
    using DEFAULT_nonempty DEFAULT_symbols_nonempty
    by (simp add: preloadExcelData_def preloadTry_def useDefault_industryData useDefault_allSymbols)
next
  case (Inr rows)
  define g1 where "g1 = foldl processRow (g\<lparr>nifty500Data := rows, industryData := []\<rparr>) rows"
  have inv: "industryData g1 \<noteq> [] \<longrightarrow> allSymbolsSet g1 \<noteq> {}"
    unfolding g1_def by (rule foldl_processRow_inv) simp
  show ?thesis
  proof (cases "industryData g1 = []")
    case True
    then show ?thesis
      using Inr DEFAULT_nonempty DEFAULT_symbols_nonempty
      by (simp add: preloadExcelData_def preloadTry_def g1_def [symmetric]
            useDefault_industryData useDefault_allSymbols)
  next
    case False
    then show ?thesis
      using Inr inv
      by (simp add: preloadExcelData_def preloadTry_def g1_def [symmetric])
  qed
qed

lemma preloadExcelData_failure:
  "preloadExcelData (Inl err) g = Inr (useDefault (g\<lparr>nifty500Data := []\<rparr>))"
  by (simp add: preloadExcelData_def preloadTry_def)

lemma preloadExcelData_no_rows:
  "preloadExcelData (Inr []) g = Inr (useDefault (g\<lparr>nifty500Data := [], industryData := []\<rparr>))"
  by (simp add: preloadExcelData_def preloadTry_def)

lemma useDefault_props:
  "industryData (useDefault g) = DEFAULT_INDUSTRY_DATA \<and>
   industryData (useDefault g) \<noteq> [] \<and>
   set (concat (map snd DEFAULT_INDUSTRY_DATA)) \<subseteq> allSymbolsSet (useDefault g) \<and>
   allSymbolsSet (useDefault g) \<noteq> {}"
proof -
  have sub: "set (concat (map snd DEFAULT_INDUSTRY_DATA)) \<subseteq> allSymbolsSet (useDefault g)"
    unfolding useDefault_allSymbols by (rule Un_upper2)
  have "allSymbolsSet (useDefault g) \<noteq> {}"
    using DEFAULT_symbols_nonempty sub subset_empty [of "set (concat (map snd DEFAULT_INDUSTRY_DATA))"]
    by (cases "allSymbolsSet (useDefault g) = {}") simp_all
  with sub show ?thesis
    using DEFAULT_nonempty by (simp only: useDefault_industryData) blast
qed

text \<open>
  Claim C8. Whatever \<open>readExcelFile\<close> does, start-up ends with the server listening
  and with a non-empty industry index and a non-empty symbol set. When the read fails
  or yields zero rows, the industry index is the built-in default mapping and the
  symbol set contains every symbol of that mapping.
\<close>

theorem registry_fallback:
  "(\<exists>g. startServer anySrc = Listening g \<and> industryData g \<noteq> [] \<and> allSymbolsSet g \<noteq> {}) \<and>
   (src = Inl err \<or> src = Inr [] \<longrightarrow>
      (\<exists>g. startServer src = Listening g \<and>
           industryData g = DEFAULT_INDUSTRY_DATA \<and> industryData g \<noteq> [] \<and>
           set (concat (map snd DEFAULT_INDUSTRY_DATA)) \<subseteq> allSymbolsSet g \<and>
           allSymbolsSet g \<noteq> {}))"
proof
  obtain g' where "preloadExcelData anySrc initialRegistry = Inr g'"
    and "industryData g' \<noteq> []" and "allSymbolsSet g' \<noteq> {}"
    using preloadExcelData_total by blast
  then show "\<exists>g. startServer anySrc = Listening g \<and> industryData g \<noteq> [] \<and> allSymbolsSet g \<noteq> {}"
    by (simp add: startServer_def)
next
  show "src = Inl err \<or> src = Inr [] \<longrightarrow>
      (\<exists>g. startServer src = Listening g \<and>
           industryData g = DEFAULT_INDUSTRY_DATA \<and> industryData g \<noteq> [] \<and>
           set (concat (map snd DEFAULT_INDUSTRY_DATA)) \<subseteq> allSymbolsSet g \<and>
           allSymbolsSet g \<noteq> {})"
  proof
    assume "src = Inl err \<or> src = Inr []"
    then obtain g0 where "startServer src = Listening (useDefault g0)"
      by (auto simp: startServer_def preloadExcelData_failure preloadExcelData_no_rows)
    with useDefault_props [of g0]
    show "\<exists>g. startServer src = Listening g \<and>
           industryData g = DEFAULT_INDUSTRY_DATA \<and> industryData g \<noteq> [] \<and>
           set (concat (map snd DEFAULT_INDUSTRY_DATA)) \<subseteq> allSymbolsSet g \<and>
           allSymbolsSet g \<noteq> {}"
      by blast
  qed
qed

theorem registry_fallback_witness:
  "(\<exists>g. startServer (Inr [\<lparr>Symbol = Some ''tcs.ns'', Industry = None\<rparr>]) = Listening g \<and>
        industryData g \<noteq> [] \<and> allSymbolsSet g \<noteq> {}) \<and>
   (\<exists>g. startServer (Inr []) = Listening g \<and>
        industryData g = DEFAULT_INDUSTRY_DATA \<and> industryData g \<noteq> [] \<and>
        set (concat (map snd DEFAULT_INDUSTRY_DATA)) \<subseteq> allSymbolsSet g \<and>
        allSymbolsSet g \<noteq> {})"
  using registry_fallback [of "Inr [\<lparr>Symbol = Some ''tcs.ns'', Industry = None\<rparr>]" "Inr []" "''x''"]
  by simp

section \<open>Quotes are returned for registered symbols only\<close>

lemma cacheLoop_symbols:
  "cacheLoop E xs (s, res, unc, hits) = (s', res', unc', hits') \<Longrightarrow>
   symbol ` set res' \<subseteq> symbol ` set res \<union> set xs \<and> set unc' \<subseteq> set unc \<union> set xs"
proof (induction xs arbitrary: s res unc hits)
  case Nil
  then show ?case by simp
next
  case (Cons x xs)
  show ?case
  proof (cases "cache s x")
    case None
    with Cons.prems have "cacheLoop E xs (s, res, unc @ [x], hits) = (s', res', unc', hits')"
      by simp
    from Cons.IH [OF this] show ?thesis by auto
  next
    case (Some c)
    show ?thesis
    proof (cases "timestamp c > clock E (nowReads s) - 300 * 1000")
      case True
      with Some Cons.prems
      have "cacheLoop E xs (s\<lparr>nowReads := Suc (nowReads s)\<rparr>, res @ [cachedStock x c], unc, hits + 1)
            = (s', res', unc', hits')"
        by (simp add: Let_def)
      from Cons.IH [OF this] show ?thesis by (auto simp: cachedStock_def)
    next
      case False
      with Some Cons.prems
      have "cacheLoop E xs (s\<lparr>nowReads := Suc (nowReads s)\<rparr>, res, unc @ [x], hits)
            = (s', res', unc', hits')"
        by (simp add: Let_def)
      from Cons.IH [OF this] show ?thesis by auto
    qed
  qed
qed

lemma sliceLoop_subset: "b \<in> set (sliceLoop batchSize xs i) \<Longrightarrow> set b \<subseteq> set xs"
proof (induction batchSize xs i rule: sliceLoop.induct)
  case (1 batchSize xs i)
  show ?case
  proof (cases "i < length xs \<and> 0 < batchSize")
    case True
    with "1.prems" have "b = take batchSize (drop i xs) \<or> b \<in> set (sliceLoop batchSize xs (i + batchSize))"
      by (subst (asm) sliceLoop.simps) simp
    then show ?thesis
    proof
      assume "b = take batchSize (drop i xs)"
      then show ?thesis
        using set_take_subset [of batchSize "drop i xs"] set_drop_subset [of i xs] by blast
    next
      assume "b \<in> set (sliceLoop batchSize xs (i + batchSize))"
      with "1.IH" True show ?thesis by blast
    qed
  next
    case False
    with "1.prems" show ?thesis by (subst (asm) sliceLoop.simps) simp
  qed
qed

lemma sliceLoop_nonempty: "b \<in> set (sliceLoop batchSize xs i) \<Longrightarrow> b \<noteq> []"
proof (induction batchSize xs i rule: sliceLoop.induct)
  case (1 batchSize xs i)
  show ?case
  proof (cases "i < length xs \<and> 0 < batchSize")
    case True
    with "1.prems" have "b = take batchSize (drop i xs) \<or> b \<in> set (sliceLoop batchSize xs (i + batchSize))"
      by (subst (asm) sliceLoop.simps) simp
    then show ?thesis
    proof
      assume "b = take batchSize (drop i xs)"
      with True show ?thesis by simp
    next
      assume "b \<in> set (sliceLoop batchSize xs (i + batchSize))"
      with "1.IH" True show ?thesis by blast
    qed
  next
    case False
    with "1.prems" show ?thesis by (subst (asm) sliceLoop.simps) simp
  qed
qed

lemma startAll_Inr:
  "startAll E n batch = (n', Inr ps) \<Longrightarrow>
   n' = n + length batch \<and> length ps = length batch \<and>
   (\<forall>i<length batch. ps ! i = (batch ! i, getEquityDetails E (n + i) (batch ! i)) \<and>
      (\<forall>v. getEquityDetails E (n + i) (batch ! i) \<noteq> SyncThrow v))"
proof (induction batch arbitrary: n ps)
  case Nil
  then show ?case by simp
next
  case (Cons x xs)
  obtain m r where rest: "startAll E (Suc n) xs = (m, r)" by (cases "startAll E (Suc n) xs")
  have nothrow: "\<forall>v. getEquityDetails E n x \<noteq> SyncThrow v"
    using Cons.prems by (cases "getEquityDetails E n x") auto
  with Cons.prems rest obtain ps' where r: "r = Inr ps'" and m: "m = n'"
    and ps: "ps = (x, getEquityDetails E n x) # ps'"
    by (cases "getEquityDetails E n x"; cases r) auto
  from Cons.IH [of "Suc n" ps'] rest r m have ih:
    "n' = Suc n + length xs" "length ps' = length xs"
    "\<forall>i<length xs. ps' ! i = (xs ! i, getEquityDetails E (Suc n + i) (xs ! i)) \<and>
        (\<forall>v. getEquityDetails E (Suc n + i) (xs ! i) \<noteq> SyncThrow v)"
    by simp_all
  have "\<forall>i<length (x # xs). ps ! i = ((x # xs) ! i, getEquityDetails E (n + i) ((x # xs) ! i)) \<and>
      (\<forall>v. getEquityDetails E (n + i) ((x # xs) ! i) \<noteq> SyncThrow v)"
  proof (intro allI impI)
    fix i assume i: "i < length (x # xs)"
    show "ps ! i = ((x # xs) ! i, getEquityDetails E (n + i) ((x # xs) ! i)) \<and>
      (\<forall>v. getEquityDetails E (n + i) ((x # xs) ! i) \<noteq> SyncThrow v)"
    proof (cases i)
      case 0
      with ps nothrow show ?thesis by simp
    next
      case (Suc j)
      with i have "j < length xs" by simp
      with ih(3) have "ps' ! j = (xs ! j, getEquityDetails E (Suc n + j) (xs ! j)) \<and>
        (\<forall>v. getEquityDetails E (Suc n + j) (xs ! j) \<noteq> SyncThrow v)"
        by blast
      with Suc ps show ?thesis by simp
    qed
  qed
  with ih(1,2) ps show ?case by simp
qed


lemma startAll_first_throws:
  "getEquityDetails E n x = SyncThrow v \<Longrightarrow> startAll E n (x # xs) = (Suc n, Inl v)"
  by simp

lemma awaitAll_Inr: "awaitAll xs = Inr rs \<Longrightarrow> xs = map Inr rs"
proof (induction xs arbitrary: rs)
  case Nil
  then show ?case by simp
next
  case (Cons x xs)
  show ?case
  proof (cases x)
    case (Inl t)
    with Cons.prems show ?thesis by simp
  next
    case (Inr p)
    with Cons.prems obtain rs' where a: "awaitAll xs = Inr rs'" and rs: "rs = p # rs'"
      by (cases "awaitAll xs") auto
    from Cons.IH [OF a] Inr rs show ?thesis by simp
  qed
qed


lemma awaitAll_Inl: "awaitAll xs = Inl t \<Longrightarrow> Inl t \<in> set xs"
proof (induction xs)
  case Nil
  then show ?case by simp
next
  case (Cons x xs)
  show ?case
  proof (cases x)
    case (Inl u)
    with Cons.prems show ?thesis by simp
  next
    case (Inr p)
    with Cons.prems have "awaitAll xs = Inl t" by (cases "awaitAll xs") auto
    from Cons.IH [OF this] show ?thesis by simp
  qed
qed

lemma settleOne_Inr:
  "settleOne E (symb, out) = Inr r \<Longrightarrow>
   fst r = symb \<and>
   (out = Resolved (snd r) \<or> (\<exists>e. out = Rejected e \<and> \<not> nullish e \<and> snd r = JNull))"
  by (cases out) (auto split: if_splits)

text \<open>What an attempt that completes has seen of the provider, symbol by symbol.\<close>

lemma callAll_Inr:
  assumes "callAll E n batch = (n', Inr rs)"
  shows "n' = n + length batch \<and> length rs = length batch \<and>
         (\<forall>i<length batch. fst (rs ! i) = batch ! i \<and>
            (getEquityDetails E (n + i) (batch ! i) = Resolved (snd (rs ! i)) \<or>
             (\<exists>e. getEquityDetails E (n + i) (batch ! i) = Rejected e \<and> \<not> nullish e \<and>
                  snd (rs ! i) = JNull)))"
proof -
  obtain m r where st: "startAll E n batch = (m, r)" by (cases "startAll E n batch")
  from assms st obtain ps where r: "r = Inr ps" and m: "m = n'"
    and aw: "awaitAll (map (settleOne E) ps) = Inr rs"
    by (cases r) (auto simp: callAll_def)
  from startAll_Inr [of E n batch m ps] st r have
    n: "m = n + length batch" and len: "length ps = length batch"
    and each: "\<forall>i<length batch. ps ! i = (batch ! i, getEquityDetails E (n + i) (batch ! i))"
    by simp_all
  from awaitAll_Inr [OF aw] have eq: "map (settleOne E) ps = map Inr rs" .
  then have len2: "length rs = length ps" by (metis length_map)
  have "\<forall>i<length batch. fst (rs ! i) = batch ! i \<and>
            (getEquityDetails E (n + i) (batch ! i) = Resolved (snd (rs ! i)) \<or>
             (\<exists>e. getEquityDetails E (n + i) (batch ! i) = Rejected e \<and> \<not> nullish e \<and>
                  snd (rs ! i) = JNull))"
  proof (intro allI impI)
    fix i assume i: "i < length batch"
    with len len2 have "map (settleOne E) ps ! i = settleOne E (ps ! i)"
      and "map Inr rs ! i = (Inr (rs ! i) :: thrown + (string \<times> jsv))"
      by simp_all
    with eq have "settleOne E (ps ! i) = Inr (rs ! i)" by simp
    with each i have "settleOne E (batch ! i, getEquityDetails E (n + i) (batch ! i)) = Inr (rs ! i)"
      by simp
    from settleOne_Inr [OF this]
    show "fst (rs ! i) = batch ! i \<and>
            (getEquityDetails E (n + i) (batch ! i) = Resolved (snd (rs ! i)) \<or>
             (\<exists>e. getEquityDetails E (n + i) (batch ! i) = Rejected e \<and> \<not> nullish e \<and>
                  snd (rs ! i) = JNull))" .
  qed
  with n m len len2 show ?thesis by simp
qed

lemma callAll_fst: "callAll E n batch = (n', Inr rs) \<Longrightarrow> map fst rs = batch"
proof -
  assume c: "callAll E n batch = (n', Inr rs)"
  from callAll_Inr [OF c] have len: "length rs = length batch"
    and each: "\<forall>i<length batch. fst (rs ! i) = batch ! i"
    by simp_all
  show "map fst rs = batch"
  proof (rule nth_equalityI)
    show "length (map fst rs) = length batch" using len by simp
  next
    fix i assume "i < length (map fst rs)"
    with len each show "map fst rs ! i = batch ! i" by simp
  qed
qed


lemma tryBatch_Inr:
  assumes "tryBatch E s batch = (s1, Inr vr)"
  shows "\<exists>n rs. callAll E (apiCalls s) batch = (n, Inr rs) \<and>
                vr = map toStock (filter isValid rs) \<and>
                s1 = cacheSetAll E (s\<lparr>apiCalls := n\<rparr>) vr"
proof -
  obtain n r where c: "callAll E (apiCalls s) batch = (n, r)" by (cases "callAll E (apiCalls s) batch")
  with assms show ?thesis
    by (cases r) (auto simp: tryBatch_def Let_def)
qed

lemma tryBatch_Inl:
  assumes "tryBatch E s batch = (s1, Inl t)"
  shows "\<exists>n. callAll E (apiCalls s) batch = (n, Inl t) \<and> s1 = s\<lparr>apiCalls := n\<rparr>"
proof -
  obtain n r where c: "callAll E (apiCalls s) batch = (n, r)" by (cases "callAll E (apiCalls s) batch")
  with assms show ?thesis
    by (cases r) (auto simp: tryBatch_def Let_def)
qed

lemma symbol_toStock: "symbol (toStock x) = fst x"
  by (simp add: toStock_def Let_def)

lemma tryBatch_symbols:
  assumes "tryBatch E s batch = (s1, Inr vr)"
  shows "symbol ` set vr \<subseteq> set batch"
proof -
  from tryBatch_Inr [OF assms] obtain n rs where c: "callAll E (apiCalls s) batch = (n, Inr rs)"
    and vr: "vr = map toStock (filter isValid rs)"
    by blast
  from c have "map fst rs = batch" by (rule callAll_fst)
  then have "fst ` set rs = set batch" by (metis set_map)
  moreover have "symbol ` set vr \<subseteq> fst ` set rs"
    unfolding vr by (force simp: symbol_toStock)
  ultimately show ?thesis by simp
qed

text \<open>The step of the retry loop after a failed attempt whose error has a message.\<close>

lemma retryLoop_failed:
  assumes "tryBatch E s batch = (s1, Inl t)" and "messageReadFails E t = None"
  shows "retryLoop E index batch (Suc k) (s, res) =
           retryLoop E index batch k
             (if k = 0
              then s1\<lparr>console := console s1 @ [BatchError (index + 1) (MAX_RETRIES + 1 - Suc k),
                                                 BatchSkipped (index + 1)]\<rparr>
              else s1\<lparr>console := console s1 @ [BatchError (index + 1) (MAX_RETRIES + 1 - Suc k)],
                      timers := timers s1 @ [1000]\<rparr>, res)"
  using assms by (simp add: Let_def)

lemma retryLoop_rejects:
  assumes "tryBatch E s batch = (s1, Inl t)" and "messageReadFails E t = Some msg"
  shows "retryLoop E index batch (Suc k) (s, res) = (s1, Inl msg)"
  using assms by simp

lemma retryLoop_succeeds:
  assumes "tryBatch E s batch = (s1, Inr vr)"
  shows "retryLoop E index batch (Suc k) (s, res) = (s1, Inr (res @ vr))"
  using assms by simp

lemma retryLoop_symbols:
  "retryLoop E index batch k (s, res) = (s', Inr res') \<Longrightarrow>
   symbol ` set res' \<subseteq> symbol ` set res \<union> set batch"
proof (induction k arbitrary: s)
  case 0
  then show ?case by auto
next
  case (Suc k)
  obtain s1 r where t: "tryBatch E s batch = (s1, r)" by (cases "tryBatch E s batch")
  show ?case
  proof (cases r)
    case (Inl err)
    show ?thesis
    proof (cases "messageReadFails E err")
      case None
      from retryLoop_failed [OF t [unfolded Inl] None, of index k res] Suc.prems
      obtain s2 where "retryLoop E index batch k (s2, res) = (s', Inr res')" by simp
      from Suc.IH [OF this] show ?thesis .
    next
      case (Some msg)
      from retryLoop_rejects [OF t [unfolded Inl] Some, of index k res] Suc.prems
      show ?thesis by simp
    qed
  next
    case (Inr vr)
    from retryLoop_succeeds [OF t [unfolded Inr], of index k res] Suc.prems
    have "res' = res @ vr" by simp
    moreover from t Inr have "symbol ` set vr \<subseteq> set batch" by (simp add: tryBatch_symbols)
    ultimately show ?thesis by auto
  qed
qed

lemma batchLoop_symbols:
  "batchLoop E n index batches (s, res) = (s', Inr res') \<Longrightarrow>
   symbol ` set res' \<subseteq> symbol ` set res \<union> \<Union> (set ` set batches)"
proof (induction batches arbitrary: index s res)
  case Nil
  then show ?case by auto
next
  case (Cons b bs)
  obtain s1 r1 where r: "retryLoop E index b MAX_RETRIES (s, res) = (s1, r1)"
    by (cases "retryLoop E index b MAX_RETRIES (s, res)")
  show ?case
  proof (cases r1)
    case (Inl msg)
    with r Cons.prems show ?thesis by simp
  next
    case (Inr res1)
    with r Cons.prems obtain s2 where "batchLoop E n (Suc index) bs (s2, res1) = (s', Inr res')"
      by auto
    from Cons.IH [OF this] retryLoop_symbols [OF r [unfolded Inr]] show ?thesis by auto
  qed
qed

lemma fetch_unfold:
  assumes "(if \<not> forceRefresh \<and> \<not> FORCE_CACHE_BYPASS E
            then cacheLoop E (filter (\<lambda>symb. symb \<in> allSymbolsSet g \<and> trim symb \<noteq> []) symbols) (s, [], [], 0)
            else (s, [], filter (\<lambda>symb. symb \<in> allSymbolsSet g \<and> trim symb \<noteq> []) symbols, 0))
           = (s1, res0, unc, hits)"
    and "batchLoop E (length (sliceLoop batchSize unc 0)) 0 (sliceLoop batchSize unc 0) (s1, res0) = (s2, out)"
  shows "fetchEquityDetailsInBatches E g symbols batchSize forceRefresh s =
           (if batchSize = 0 \<and> unc \<noteq> [] then None
            else Some (s2, case out of
                             Inl msg \<Rightarrow> Inl msg
                           | Inr res2 \<Rightarrow>
                               Inr \<lparr>results = res2,
                                    cached = (hits > 0 \<and> \<not> forceRefresh \<and> \<not> FORCE_CACHE_BYPASS E)\<rparr>))"
  unfolding fetchEquityDetailsInBatches_def Let_def
  by (cases out) (simp_all only: assms prod.case sum.case)

lemma fetch_returns:
  assumes "0 < batchSize"
  shows "\<exists>s' r. fetchEquityDetailsInBatches E g symbols batchSize forceRefresh s = Some (s', r)"
proof -
  obtain s1 res0 unc hits where part:
    "(if \<not> forceRefresh \<and> \<not> FORCE_CACHE_BYPASS E
      then cacheLoop E (filter (\<lambda>symb. symb \<in> allSymbolsSet g \<and> trim symb \<noteq> []) symbols) (s, [], [], 0)
      else (s, [], filter (\<lambda>symb. symb \<in> allSymbolsSet g \<and> trim symb \<noteq> []) symbols, 0))
     = (s1, res0, unc, hits)"
    using prod_cases4 by blast
  obtain s2 out where loop:
    "batchLoop E (length (sliceLoop batchSize unc 0)) 0 (sliceLoop batchSize unc 0) (s1, res0) = (s2, out)"
    using prod.exhaust by blast
  show ?thesis
    using assms by (simp add: fetch_unfold [OF part loop])
qed

lemma fetch_symbols:
  assumes "fetchEquityDetailsInBatches E g symbols batchSize forceRefresh s = Some (s', Inr r)"
  shows "symbol ` set (results r) \<subseteq> set symbols \<inter> allSymbolsSet g"
proof -
  define validSymbols where "validSymbols = filter (\<lambda>symb. symb \<in> allSymbolsSet g \<and> trim symb \<noteq> []) symbols"
  have valid: "set validSymbols \<subseteq> set symbols \<inter> allSymbolsSet g"
    by (auto simp: validSymbols_def)
  obtain s1 res0 unc hits where part:
    "(if \<not> forceRefresh \<and> \<not> FORCE_CACHE_BYPASS E
      then cacheLoop E validSymbols (s, [], [], 0) else (s, [], validSymbols, 0)) = (s1, res0, unc, hits)"
    using prod_cases4 by blast
  obtain s2 out where loop:
    "batchLoop E (length (sliceLoop batchSize unc 0)) 0 (sliceLoop batchSize unc 0) (s1, res0) = (s2, out)"
    using prod.exhaust by blast
  have sub0: "symbol ` set res0 \<subseteq> set validSymbols \<and> set unc \<subseteq> set validSymbols"
  proof (cases "\<not> forceRefresh \<and> \<not> FORCE_CACHE_BYPASS E")
    case True
    with part have "cacheLoop E validSymbols (s, [], [], 0) = (s1, res0, unc, hits)" by simp
    from cacheLoop_symbols [OF this] show ?thesis by simp
  next
    case False
    with part show ?thesis by auto
  qed
  note unf = fetch_unfold [OF part [unfolded validSymbols_def] loop]
  have nz: "\<not> (batchSize = 0 \<and> unc \<noteq> [])"
  proof
    assume c: "batchSize = 0 \<and> unc \<noteq> []"
    have "fetchEquityDetailsInBatches E g symbols batchSize forceRefresh s = None"
      by (simp only: unf if_P [OF c])
    with assms show False by simp
  qed
  have "fetchEquityDetailsInBatches E g symbols batchSize forceRefresh s =
          Some (s2, case out of
                      Inl msg \<Rightarrow> Inl msg
                    | Inr res2 \<Rightarrow>
                        Inr \<lparr>results = res2,
                             cached = (hits > 0 \<and> \<not> forceRefresh \<and> \<not> FORCE_CACHE_BYPASS E)\<rparr>)"
    by (simp only: unf if_not_P [OF nz])
  with assms have eq: "(case out of
                      Inl msg \<Rightarrow> Inl msg
                    | Inr res2 \<Rightarrow>
                        Inr \<lparr>results = res2,
                             cached = (hits > 0 \<and> \<not> forceRefresh \<and> \<not> FORCE_CACHE_BYPASS E)\<rparr>) = Inr r"
    by simp
  have out: "out = Inr (results r)"
  proof (cases out)
    case (Inl msg)
    with eq show ?thesis by simp
  next
    case (Inr res2)
    with eq have "r = \<lparr>results = res2,
                       cached = (hits > 0 \<and> \<not> forceRefresh \<and> \<not> FORCE_CACHE_BYPASS E)\<rparr>"
      by simp
    with Inr show ?thesis by simp
  qed
  have "\<Union> (set ` set (sliceLoop batchSize unc 0)) \<subseteq> set unc"
    by (auto dest: sliceLoop_subset)
  moreover note batchLoop_symbols [OF loop [unfolded out]]
  ultimately have "symbol ` set (results r) \<subseteq> symbol ` set res0 \<union> set unc"
    by blast
  also have "\<dots> \<subseteq> set validSymbols"
    using sub0 by simp
  finally show ?thesis
    using valid by blast
qed

lemma quotesOf_Some:
  assumes "quotesOf x = Some qs"
  shows "\<exists>s' r. x = Some (s', Inr r) \<and> results r = qs"
proof (cases x)
  case None
  with assms show ?thesis by (simp add: quotesOf_def)
next
  case (Some p)
  obtain s' out where p: "p = (s', out)" by (cases p)
  show ?thesis
  proof (cases out)
    case (Inl msg)
    with Some p assms show ?thesis by (simp add: quotesOf_def)
  next
    case (Inr r)
    with Some p assms show ?thesis by (simp add: quotesOf_def)
  qed
qed

section \<open>The retry loop\<close>

lemma cacheSetAll_keeps:
  "console (cacheSetAll E s qs) = console s \<and> timers (cacheSetAll E s qs) = timers s \<and>
   apiCalls (cacheSetAll E s qs) = apiCalls s"
  by (induction qs arbitrary: s) simp_all

lemma tryBatch_keeps:
  assumes "tryBatch E s batch = (s1, r)"
  shows "console s1 = console s \<and> timers s1 = timers s"
proof (cases r)
  case (Inl t)
  from tryBatch_Inl [OF assms [unfolded Inl]] show ?thesis by auto
next
  case (Inr vr)
  from tryBatch_Inr [OF assms [unfolded Inr]] show ?thesis by (auto simp: cacheSetAll_keeps)
qed

lemma tryBatch_throw:
  assumes "tryBatch E s batch = (s1, Inl t)"
  shows "cache s1 = cache s \<and> snd (callAll E (apiCalls s) batch) = Inl t"
  using tryBatch_Inl [OF assms] by auto

lemma tryBatch_done:
  assumes "tryBatch E s batch = (s1, Inr vr)"
  shows "\<exists>rs. snd (callAll E (apiCalls s) batch) = Inr rs"
  using tryBatch_Inr [OF assms] by auto

text \<open>
  The retry loop with \<open>k\<close> attempts left, \<open>a\<close> being the number of the next attempt:
  \<open>j\<close> attempts fail and are logged.
\<close>

lemma retryLoop_general:
  assumes "retryLoop E index batch k (s, res) = (s', out)" and "a + k = MAX_RETRIES + 1"
  shows "\<exists>j\<le>k. console s' = console s @ map (BatchError (index + 1)) [a..<a + j] @
                     (if j = k \<and> 0 < k then [BatchSkipped (index + 1)] else []) \<and>
               timers s' = timers s @ replicate (if j = k then k - 1 else j) 1000 \<and>
               (j = k \<longrightarrow> out = Inr res \<and> cache s' = cache s) \<and>
               (j < k \<longrightarrow> (\<exists>vr. out = Inr (res @ vr)) \<or> (\<exists>msg. out = Inl msg \<and> cache s' = cache s)) \<and>
               ((\<forall>n. \<exists>t. snd (callAll E n batch) = Inl t \<and> messageReadFails E t = None) \<longrightarrow> j = k)"
  using assms
proof (induction k arbitrary: s a)
  case 0
  then show ?case by simp
next
  case (Suc k)
  obtain s1 r where t: "tryBatch E s batch = (s1, r)" by (cases "tryBatch E s batch")
  note keep = tryBatch_keeps [OF t]
  have a: "MAX_RETRIES + 1 - Suc k = a" using Suc.prems(2) by simp
  show ?case
  proof (cases r)
    case (Inr vr)
    from retryLoop_succeeds [OF t [unfolded Inr], of index k res] Suc.prems(1)
    have fin: "s' = s1" "out = Inr (res @ vr)" by simp_all
    from tryBatch_done [OF t [unfolded Inr]] obtain rs where
      "snd (callAll E (apiCalls s) batch) = Inr rs" by blast
    then have "\<not> (\<forall>n. \<exists>t. snd (callAll E n batch) = Inl t \<and> messageReadFails E t = None)"
      by (auto intro!: exI [of _ "apiCalls s"])
    with fin keep show ?thesis by (intro exI [of _ 0]) simp
  next
    case (Inl err)
    from tryBatch_throw [OF t [unfolded Inl]] have c1: "cache s1 = cache s"
      and thrown: "snd (callAll E (apiCalls s) batch) = Inl err"
      by simp_all
    show ?thesis
    proof (cases "messageReadFails E err")
      case (Some msg)
      from retryLoop_rejects [OF t [unfolded Inl] Some, of index k res] Suc.prems(1)
      have fin: "s' = s1" "out = Inl msg" by simp_all
      have "\<not> (\<forall>n. \<exists>t. snd (callAll E n batch) = Inl t \<and> messageReadFails E t = None)"
      proof
        assume "\<forall>n. \<exists>t. snd (callAll E n batch) = Inl t \<and> messageReadFails E t = None"
        then obtain t' where "snd (callAll E (apiCalls s) batch) = Inl t'"
          and "messageReadFails E t' = None" by blast
        with thrown Some show False by simp
      qed
      with fin keep c1 show ?thesis by (intro exI [of _ 0]) simp
    next
      case None
      note step = retryLoop_failed [OF t [unfolded Inl] None, of index k res, unfolded a]
      show ?thesis
      proof (cases "k = 0")
        case True
        with step Suc.prems(1)
        have "s' = s1\<lparr>console := console s1 @ [BatchError (index + 1) a, BatchSkipped (index + 1)]\<rparr>"
          and "out = Inr res"
          by simp_all
        with keep c1 True show ?thesis by (intro exI [of _ 1]) simp
      next
        case False
        let ?s3 = "s1\<lparr>console := console s1 @ [BatchError (index + 1) a],
                      timers := timers s1 @ [1000]\<rparr>"
        from step False Suc.prems(1)
        have run: "retryLoop E index batch k (?s3, res) = (s', out)"
          by simp
        have "Suc a + k = MAX_RETRIES + 1" using Suc.prems(2) by simp
        from Suc.IH [OF run this] obtain j where j: "j \<le> k"
          and con: "console s' = console ?s3 @ map (BatchError (index + 1)) [Suc a..<Suc a + j] @
                       (if j = k \<and> 0 < k then [BatchSkipped (index + 1)] else [])"
          and tim: "timers s' = timers ?s3 @ replicate (if j = k then k - 1 else j) 1000"
          and ex: "j = k \<longrightarrow> out = Inr res \<and> cache s' = cache ?s3"
          and ok: "j < k \<longrightarrow> (\<exists>vr. out = Inr (res @ vr)) \<or> (\<exists>msg. out = Inl msg \<and> cache s' = cache ?s3)"
          and all: "(\<forall>n. \<exists>t. snd (callAll E n batch) = Inl t \<and> messageReadFails E t = None) \<longrightarrow> j = k"
          by blast
        have upt: "[a..<a + Suc j] = a # [Suc a..<Suc a + j]"
          by (simp add: upt_conv_Cons)
        have con': "console s' = console s @ map (BatchError (index + 1)) [a..<a + Suc j] @
                       (if Suc j = Suc k \<and> 0 < Suc k then [BatchSkipped (index + 1)] else [])"
          using con keep False unfolding upt by simp
        have rep: "replicate (if Suc j = Suc k then Suc k - 1 else Suc j) (1000::nat) =
                   1000 # replicate (if j = k then k - 1 else j) 1000"
          using False by (cases k) auto
        have tim': "timers s' = timers s @ replicate (if Suc j = Suc k then Suc k - 1 else Suc j) 1000"
          using tim keep unfolding rep by simp
        have ex': "Suc j = Suc k \<longrightarrow> out = Inr res \<and> cache s' = cache s"
          using ex c1 by simp
        have ok': "Suc j < Suc k \<longrightarrow>
                     (\<exists>vr. out = Inr (res @ vr)) \<or> (\<exists>msg. out = Inl msg \<and> cache s' = cache s)"
          using ok c1 by simp
        have all': "(\<forall>n. \<exists>t. snd (callAll E n batch) = Inl t \<and> messageReadFails E t = None) \<longrightarrow>
                     Suc j = Suc k"
          using all by simp
        from j have "Suc j \<le> Suc k" by simp
        with con' tim' ex' ok' all' show ?thesis
          by (intro exI [of _ "Suc j"] conjI)
      qed
    qed
  qed
qed

text \<open>What is thrown in an attempt comes from a call that threw, or is a \<open>TypeError\<close>.\<close>

lemma startAll_Inl:
  "startAll E n batch = (n', Inl v) \<Longrightarrow>
   \<exists>i<length batch. getEquityDetails E (n + i) (batch ! i) = SyncThrow v"
proof (induction batch arbitrary: n n')
  case Nil
  then show ?case by simp
next
  case (Cons x xs)
  show ?case
  proof (cases "\<exists>w. getEquityDetails E n x = SyncThrow w")
    case True
    then obtain w where w: "getEquityDetails E n x = SyncThrow w" by blast
    with Cons.prems have "w = v" by simp
    with w have "getEquityDetails E (n + 0) ((x # xs) ! 0) = SyncThrow v" by simp
    then show ?thesis by (intro exI [of _ 0]) simp
  next
    case False
    obtain m r where rest: "startAll E (Suc n) xs = (m, r)" by (cases "startAll E (Suc n) xs")
    with False Cons.prems have "r = Inl v"
      by (cases "getEquityDetails E n x"; cases r) auto
    with rest Cons.IH [of "Suc n" m] obtain i where "i < length xs"
      and "getEquityDetails E (Suc n + i) (xs ! i) = SyncThrow v"
      by auto
    then have "Suc i < length (x # xs) \<and>
               getEquityDetails E (n + Suc i) ((x # xs) ! Suc i) = SyncThrow v"
      by simp
    then show ?thesis by blast
  qed
qed

lemma settleOne_Inl:
  "settleOne E (symb, out) = Inl t \<Longrightarrow>
   (\<exists>m. t = TypeError m) \<or> (\<exists>v. t = Thrown v \<and> out = SyncThrow v)"
  by (cases out) (auto split: if_splits)

lemma callAll_Inl_message:
  assumes "callAll E n batch = (n', Inl t)"
    and "\<forall>k symb v. getEquityDetails E k symb = SyncThrow v \<longrightarrow> \<not> nullish v"
  shows "messageReadFails E t = None"
proof -
  obtain m r where st: "startAll E n batch = (m, r)" by (cases "startAll E n batch")
  show ?thesis
  proof (cases r)
    case (Inl v)
    with st assms(1) have t: "t = Thrown v" by (simp add: callAll_def)
    from startAll_Inl [OF st [unfolded Inl]] assms(2) have "\<not> nullish v" by blast
    with t show ?thesis by simp
  next
    case (Inr ps)
    with st assms(1) have "awaitAll (map (settleOne E) ps) = Inl t" by (simp add: callAll_def)
    from awaitAll_Inl [OF this] obtain p where mem: "p \<in> set ps" and p: "settleOne E p = Inl t"
      by auto
    from mem obtain i where i: "i < length ps" and pi: "ps ! i = p"
      by (auto simp: in_set_conv_nth)
    from startAll_Inr [OF st [unfolded Inr]] i pi
    have "p = (batch ! i, getEquityDetails E (n + i) (batch ! i))"
      and "\<forall>v. getEquityDetails E (n + i) (batch ! i) \<noteq> SyncThrow v"
      by auto
    with p settleOne_Inl [of E "batch ! i" "getEquityDetails E (n + i) (batch ! i)" t]
    show ?thesis by auto
  qed
qed

lemma retryLoop_returns:
  assumes "\<forall>k symb v. getEquityDetails E k symb = SyncThrow v \<longrightarrow> \<not> nullish v"
  shows "\<exists>s' res'. retryLoop E index batch k (s, res) = (s', Inr res')"
proof (induction k arbitrary: s)
  case 0
  then show ?case by simp
next
  case (Suc k)
  obtain s1 r where t: "tryBatch E s batch = (s1, r)" by (cases "tryBatch E s batch")
  show ?case
  proof (cases r)
    case (Inr vr)
    from retryLoop_succeeds [OF t [unfolded Inr], of index k res] show ?thesis by simp
  next
    case (Inl err)
    from tryBatch_Inl [OF t [unfolded Inl]] obtain n where "callAll E (apiCalls s) batch = (n, Inl err)"
      by blast
    from callAll_Inl_message [OF this assms] have "messageReadFails E err = None" .
    from retryLoop_failed [OF t [unfolded Inl] this, of index k res] Suc.IH show ?thesis
      by simp
  qed
qed

lemma batchLoop_returns:
  assumes "\<forall>k symb v. getEquityDetails E k symb = SyncThrow v \<longrightarrow> \<not> nullish v"
  shows "\<exists>s' res'. batchLoop E n index batches (s, res) = (s', Inr res')"
proof (induction batches arbitrary: index s res)
  case Nil
  then show ?case by simp
next
  case (Cons b bs)
  from retryLoop_returns [OF assms, of index b MAX_RETRIES s res] obtain s1 res1 where
    "retryLoop E index b MAX_RETRIES (s, res) = (s1, Inr res1)" by blast
  with Cons.IH show ?case by simp
qed

lemma fetch_returns_normally:
  assumes "\<forall>k symb v. getEquityDetails E k symb = SyncThrow v \<longrightarrow> \<not> nullish v" and "0 < batchSize"
  shows "\<exists>s' r. fetchEquityDetailsInBatches E g symbols batchSize forceRefresh s = Some (s', Inr r)"
proof -
  obtain s1 res0 unc hits where part:
    "(if \<not> forceRefresh \<and> \<not> FORCE_CACHE_BYPASS E
      then cacheLoop E (filter (\<lambda>symb. symb \<in> allSymbolsSet g \<and> trim symb \<noteq> []) symbols) (s, [], [], 0)
      else (s, [], filter (\<lambda>symb. symb \<in> allSymbolsSet g \<and> trim symb \<noteq> []) symbols, 0))
     = (s1, res0, unc, hits)"
    using prod_cases4 by blast
  from batchLoop_returns [OF assms(1)] obtain s2 res2 where loop:
    "batchLoop E (length (sliceLoop batchSize unc 0)) 0 (sliceLoop batchSize unc 0) (s1, res0) = (s2, Inr res2)"
    by blast
  show ?thesis
    using assms(2) by (simp add: fetch_unfold [OF part loop])
qed

text \<open>A provider whose every call throws a value that has a message.\<close>

lemma callAll_first_throws:
  assumes "\<forall>k symb. \<exists>v. getEquityDetails E k symb = SyncThrow v \<and> \<not> nullish v" and "batch \<noteq> []"
  shows "\<exists>v. callAll E n batch = (Suc n, Inl (Thrown v)) \<and> \<not> nullish v"
proof -
  from assms(2) obtain x xs where b: "batch = x # xs" by (cases batch) auto
  from assms(1) obtain v where "getEquityDetails E n x = SyncThrow v" and "\<not> nullish v" by blast
  with b show ?thesis by (simp add: callAll_def)
qed

lemma retryLoop_all_throw:
  assumes "\<forall>k symb. \<exists>v. getEquityDetails E k symb = SyncThrow v \<and> \<not> nullish v" and "batch \<noteq> []"
    and "a + k = MAX_RETRIES + 1"
  shows "retryLoop E index batch k (s, res) =
           (s\<lparr>apiCalls := apiCalls s + k,
              console := console s @ map (BatchError (index + 1)) [a..<a + k] @
                           (if 0 < k then [BatchSkipped (index + 1)] else []),
              timers := timers s @ replicate (k - 1) 1000\<rparr>, Inr res)"
  using assms(3)
proof (induction k arbitrary: s a)
  case 0
  then show ?case by simp
next
  case (Suc k)
  from callAll_first_throws [OF assms(1,2), of "apiCalls s"] obtain v where
    c: "callAll E (apiCalls s) batch = (Suc (apiCalls s), Inl (Thrown v))" and v: "\<not> nullish v"
    by blast
  then have t: "tryBatch E s batch = (s\<lparr>apiCalls := Suc (apiCalls s)\<rparr>, Inl (Thrown v))"
    by (simp add: tryBatch_def)
  from v have m: "messageReadFails E (Thrown v) = None" by simp
  have a: "MAX_RETRIES + 1 - Suc k = a" using Suc.prems by simp
  note step = retryLoop_failed [OF t m, of index k res, unfolded a]
  show ?case
  proof (cases "k = 0")
    case True
    with step show ?thesis by simp
  next
    case False
    have "Suc a + k = MAX_RETRIES + 1" using Suc.prems by simp
    note ih = Suc.IH [OF this]
    have upt: "[a..<a + Suc k] = a # [Suc a..<Suc a + k]"
      by (simp add: upt_conv_Cons)
    have rep: "replicate (Suc k - 1) (1000::nat) = 1000 # replicate (k - 1) 1000"
      using False by (cases k) auto
    from False step show ?thesis
      unfolding upt rep by (simp add: ih)
  qed
qed

lemma batchLoop_all_throw:
  assumes "\<forall>k symb. \<exists>v. getEquityDetails E k symb = SyncThrow v \<and> \<not> nullish v"
    and "\<forall>b\<in>set batches. b \<noteq> []"
  shows "batchLoop E n index batches (s, res) =
           (s\<lparr>apiCalls := apiCalls s + 5 * length batches,
              console := console s @
                concat (map (\<lambda>i. map (BatchError (i + 1)) [1..<6] @ [BatchSkipped (i + 1)])
                          [index..<index + length batches]),
              timers := timers s @
                concat (map (\<lambda>i. replicate 4 1000 @ (if i < n - 1 then [BATCH_DELAY_MS] else []))
                          [index..<index + length batches])\<rparr>, Inr res)"
  using assms(2)
proof (induction batches arbitrary: index s)
  case Nil
  then show ?case by simp
next
  case (Cons b bs)
  from Cons.prems have b: "b \<noteq> []" and bs: "\<forall>b\<in>set bs. b \<noteq> []" by simp_all
  have a5: "1 + 5 = MAX_RETRIES + 1" by (simp add: MAX_RETRIES_def)
  have five: "retryLoop E index b MAX_RETRIES (s, res) =
           (s\<lparr>apiCalls := apiCalls s + 5,
              console := console s @ map (BatchError (index + 1)) [1..<6] @ [BatchSkipped (index + 1)],
              timers := timers s @ replicate 4 1000\<rparr>, Inr res)"
    using retryLoop_all_throw [OF assms(1) b a5, of index s res]
    by (simp add: MAX_RETRIES_def)
  have "index < index + length (b # bs)" by simp
  from upt_conv_Cons [OF this]
  have upt: "[index..<index + length (b # bs)] = index # [Suc index..<Suc index + length bs]"
    by simp
  show ?case
    unfolding upt by (simp add: five Cons.IH [OF bs])
qed

section \<open>Numbers and their formatting\<close>

lemma bitLength_0: "bitLength 0 = 0"
  by (simp add: bitLength.simps)

lemma bitLength_pos: "0 < n \<Longrightarrow> bitLength n = Suc (bitLength (n div 2))"
  by (subst bitLength.simps) simp

lemma bitLength_1: "bitLength (Suc 0) = Suc 0"
  by (simp add: bitLength_pos bitLength_0)

lemma bitLength_2: "bitLength 2 = 2"
  by (simp add: bitLength_pos bitLength_0)

lemma bitLength_3: "bitLength 3 = 2"
  by (simp add: bitLength_pos bitLength_0)

lemma bitLength_6: "bitLength 6 = 3"
  by (simp add: bitLength_pos bitLength_0)

lemma roundHalfEven_int: "roundHalfEven (of_int z) = z"
  by (simp add: roundHalfEven_def)

text \<open>
  The nearest double of a positive number in the normal range; a multiple of the spacing
  at its exponent is a double.
\<close>

lemma roundDouble_pos:
  assumes "0 < a" and "exponentOf a = e" and "- 1022 \<le> e"
  shows "roundDouble a = of_int (roundHalfEven (a / pow2 (e - 52))) * pow2 (e - 52)"
  using assms by (simp add: roundDouble_def Let_def max_def)

lemma roundDouble_exact:
  assumes "0 < a" and "exponentOf a = e" and "- 1022 \<le> e" and "a = of_int z * pow2 (e - 52)"
  shows "roundDouble a = a"
proof -
  have q: "pow2 (e - 52) \<noteq> 0" by (simp add: pow2_def)
  from assms(4) q have "a / pow2 (e - 52) = of_int z" by simp
  with roundDouble_pos [OF assms(1-3)] assms(4) show ?thesis
    by (simp add: roundHalfEven_int)
qed

lemma exponentOf_1: "exponentOf 1 = 0"
  by (simp add: exponentOf_def bitLength_1)

lemma exponentOf_2: "exponentOf 2 = 1"
  by (simp add: exponentOf_def bitLength_2)

lemma exponentOf_3: "exponentOf 3 = 1"
  by (simp add: exponentOf_def bitLength_3)

lemma exponentOf_6: "exponentOf 6 = 2"
  by (simp add: exponentOf_def bitLength_6)

lemma roundDouble_1: "roundDouble 1 = 1"
  by (rule roundDouble_exact [OF _ exponentOf_1, of "2 ^ 52"]) (simp_all add: pow2_def)

lemma roundDouble_2: "roundDouble 2 = 2"
  by (rule roundDouble_exact [OF _ exponentOf_2, of "2 ^ 52"]) (simp_all add: pow2_def)

lemma roundDouble_3: "roundDouble 3 = 3"
  by (rule roundDouble_exact [OF _ exponentOf_3, of "3 * 2 ^ 51"]) (simp_all add: pow2_def)

lemma roundDouble_6: "roundDouble 6 = 6"
  by (rule roundDouble_exact [OF _ exponentOf_6, of "6 * 2 ^ 50"]) (simp_all add: pow2_def)

text \<open>The sum and the mean of 1 and the double nearest to 1.01, as doubles.\<close>

lemma roundDouble_nearest_1_01: "roundDouble nearest_1_01 = nearest_1_01"
proof -
  have "\<lfloor>nearest_1_01\<rfloor> = 1"
    unfolding nearest_1_01_def by (rule floor_unique) simp_all
  then have e: "exponentOf nearest_1_01 = 0"
    by (simp add: exponentOf_def bitLength_1 nearest_1_01_def)
  show ?thesis
    by (rule roundDouble_exact [OF _ e, of 4548635623644201])
       (simp_all add: pow2_def nearest_1_01_def)
qed

lemma sum_1_01: "addDouble (addDouble 0 1) nearest_1_01 = 1131529406376837 / 562949953421312"
proof -
  have x: "1 + nearest_1_01 = 9052235251014697 / 4503599627370496"
    by (simp add: nearest_1_01_def)
  have "\<lfloor>(9052235251014697::rat) / 4503599627370496\<rfloor> = 2"
    by (rule floor_unique) simp_all
  then have e: "exponentOf (9052235251014697 / 4503599627370496) = 1"
    by (simp add: exponentOf_def bitLength_2)
  have fl: "\<lfloor>(9052235251014697::rat) / 2\<rfloor> = 4526117625507348"
    by (rule floor_unique) simp_all
  have r: "roundHalfEven (9052235251014697 / 2) = 4526117625507348"
    by (simp add: roundHalfEven_def Let_def fl)
  have q: "(9052235251014697 / 4503599627370496) / pow2 (1 - 52) = (9052235251014697::rat) / 2"
    by (simp add: pow2_def)
  have "(0::rat) < 9052235251014697 / 4503599627370496" and "- 1022 \<le> (1::int)"
    by simp_all
  from roundDouble_pos [OF this(1) e this(2)]
  have "roundDouble (9052235251014697 / 4503599627370496) = of_int 4526117625507348 * pow2 (1 - 52)"
    unfolding q r .
  then have "roundDouble (9052235251014697 / 4503599627370496) = 1131529406376837 / 562949953421312"
    by (simp add: pow2_def)
  then show ?thesis
    by (simp add: addDouble_def roundDouble_1 x)
qed

lemma mean_1_01:
  "divDouble (1131529406376837 / 562949953421312) 2 = 1131529406376837 / 1125899906842624"
proof -
  have "\<lfloor>(1131529406376837::rat) / 1125899906842624\<rfloor> = 1"
    by (rule floor_unique) simp_all
  then have e: "exponentOf (1131529406376837 / 1125899906842624) = 0"
    by (simp add: exponentOf_def bitLength_1)
  have "roundDouble (1131529406376837 / 1125899906842624) = 1131529406376837 / 1125899906842624"
    by (rule roundDouble_exact [OF _ e, of 4526117625507348]) (simp_all add: pow2_def)
  then show ?thesis by (simp add: divDouble_def)
qed

lemma decimal_100: "decimal 100 = ''100''"
  by (simp add: decimal.simps [of 100] decimal.simps [of 10] decimal.simps [of "Suc 0"] digitChar_def)

lemma decimal_101: "decimal 101 = ''101''"
  by (simp add: decimal.simps [of 101] decimal.simps [of 10] decimal.simps [of "Suc 0"] digitChar_def)

lemma toFixed2_double_mean: "toFixed2 (1131529406376837 / 1125899906842624) = ''1.00''"
proof -
  have "\<lfloor>(1131529406376837::rat) / 1125899906842624 * 100 + 1 / 2\<rfloor> = 100"
    by (rule floor_unique) simp_all
  then have "hundredths (1131529406376837 / 1125899906842624) = 100"
    by (simp add: hundredths_def)
  then show ?thesis by (simp add: toFixed2_def decimal_100 Let_def)
qed

lemma toFixed2_exact_mean: "toFixed2 ((1 + nearest_1_01) / 2) = ''1.01''"
proof -
  have x: "(1 + nearest_1_01) / 2 = 9052235251014697 / 9007199254740992"
    by (simp add: nearest_1_01_def)
  have "\<lfloor>(9052235251014697::rat) / 9007199254740992 * 100 + 1 / 2\<rfloor> = 101"
    by (rule floor_unique) simp_all
  then have "hundredths (9052235251014697 / 9007199254740992) = 101"
    by (simp add: hundredths_def)
  then show ?thesis unfolding x by (simp add: toFixed2_def decimal_101 Let_def)
qed

text \<open>
  What \<open>toFixed2\<close> writes: the sign, the digits of the whole part, a point and two
  digits; the number written is within half a hundredth of the magnitude.
\<close>

lemma hundredths_close:
  assumes "0 \<le> a"
  shows "\<bar>of_nat (hundredths a) / 100 - a\<bar> \<le> 1 / 200"
proof -
  define n where "n = \<lfloor>a * 100 + 1 / 2\<rfloor>"
  have nn: "0 \<le> n" using assms by (simp add: n_def)
  then have eq: "(of_nat (hundredths a) :: rat) = of_int n"
    by (simp add: hundredths_def n_def)
  have lo: "of_int n \<le> a * 100 + 1 / 2" unfolding n_def by (rule of_int_floor_le)
  have hi: "a * 100 + 1 / 2 < of_int n + 1" unfolding n_def by linarith
  have "of_int n / 100 - a \<le> 1 / 200" using lo by linarith
  moreover have "- (1 / 200) \<le> of_int n / 100 - a" using hi by linarith
  ultimately show ?thesis unfolding eq by linarith
qed

lemma decimal_small: "n < 10 \<Longrightarrow> decimal n = [digitChar n]"
  by (subst decimal.simps) simp

lemma decimal_large: "10 \<le> n \<Longrightarrow> decimal n = decimal (n div 10) @ [digitChar n]"
  by (subst decimal.simps) (simp add: digitChar_def)

lemma decimal_nonempty: "0 < length (decimal n)"
  by (subst decimal.simps) simp

lemma digitChar_0: "digitChar 0 = CHR ''0''"
  by (simp add: digitChar_def)

lemma decimal_places:
  "replicate (3 - length (decimal n)) (CHR ''0'') @ decimal n =
     decimal (n div 100) @ [digitChar (n div 10), digitChar n]"
proof -
  have two: "replicate 2 (CHR ''0'') = ''00''" and one: "replicate (Suc 0) (CHR ''0'') = ''0''"
    by (simp_all add: numeral_2_eq_2)
  consider "n < 10" | "10 \<le> n" "n < 100" | "100 \<le> n" by linarith
  then show ?thesis
  proof cases
    case 1
    then have z: "n div 100 = 0" "n div 10 = 0" by simp_all
    from 1 have d: "decimal n = [digitChar n]" by (rule decimal_small)
    have l: "3 - length [digitChar n] = 2" by simp
    show ?thesis
      unfolding d l two z by (simp add: decimal_small digitChar_0)
  next
    case 2
    then have z: "n div 100 = 0" and lt: "n div 10 < 10" by simp_all
    from 2 have d: "decimal n = [digitChar (n div 10), digitChar n]"
      by (simp add: decimal_large [OF 2(1)] decimal_small [OF lt])
    have l: "3 - length [digitChar (n div 10), digitChar n] = Suc 0" by simp
    show ?thesis
      unfolding d l one z by (simp add: decimal_small digitChar_0)
  next
    case 3
    then have a: "10 \<le> n" and b: "10 \<le> n div 10" by simp_all
    have c: "n div 10 div 10 = n div 100" by (simp add: div_mult2_eq)
    have d: "decimal n = decimal (n div 100) @ [digitChar (n div 10), digitChar n]"
      by (simp add: decimal_large [OF a] decimal_large [OF b] c)
    have l: "3 - length (decimal (n div 100) @ [digitChar (n div 10), digitChar n]) = 0"
      using decimal_nonempty [of "n div 100"] by (cases "decimal (n div 100)") simp_all
    show ?thesis
      unfolding d l by simp
  qed
qed

lemma toFixed2_digits:
  "toFixed2 x =
     (if x < 0 then ''-'' else []) @ decimal (hundredths \<bar>x\<bar> div 100) @ ''.'' @
     [digitChar (hundredths \<bar>x\<bar> div 10), digitChar (hundredths \<bar>x\<bar>)]"
proof -
  define n where "n = hundredths \<bar>x\<bar>"
  define w where "w = decimal (n div 100)"
  define t where "t = [digitChar (n div 10), digitChar n]"
  define P where "P = replicate (3 - length (decimal n)) (CHR ''0'') @ decimal n"
  have p: "P = w @ t"
    unfolding P_def w_def t_def by (rule decimal_places)
  have k: "length P - 2 = length w"
    unfolding p by (simp add: t_def)
  have "toFixed2 x = (if x < 0 then ''-'' else []) @ take (length P - 2) P @ ''.'' @ drop (length P - 2) P"
    by (simp add: toFixed2_def Let_def n_def P_def)
  also have "take (length P - 2) P = w" unfolding k by (simp add: p)
  also have "drop (length P - 2) P = t" unfolding k by (simp add: p)
  finally show ?thesis by (simp add: w_def t_def n_def)
qed

section \<open>Aggregation by industry\<close>

lemma sortDescending_props:
  "mset (sortDescending k xs) = mset xs \<and> set (sortDescending k xs) = set xs \<and>
   length (sortDescending k xs) = length xs \<and>
   sorted_wrt (\<lambda>a b. k b \<le> k a) (sortDescending k xs)"
proof -
  have "sorted (map (\<lambda>x. - k x) (sort_key (\<lambda>x. - k x) xs))" by (rule sorted_sort_key)
  then have "sorted_wrt (\<lambda>a b. - k a \<le> - k b) (sort_key (\<lambda>x. - k x) xs)"
    by (simp only: sorted_map)
  then have "sorted_wrt (\<lambda>a b. k b \<le> k a) (sort_key (\<lambda>x. - k x) xs)" by simp
  then show ?thesis by (simp add: sortDescending_def)
qed

text \<open>The keys of \<open>industryMetrics\<close> stay distinct.\<close>

lemma addToIndustry_keys:
  "fst ` set (addToIndustry q ind im) = insert ind (fst ` set im) \<and>
   (distinct (map fst im) \<longrightarrow> distinct (map fst (addToIndustry q ind im)))"
proof (induction im)
  case Nil
  then show ?case by simp
next
  case (Cons e im)
  obtain k m where e: "e = (k, m)" by (cases e)
  show ?case
  proof (cases "k = ind")
    case True
    with e show ?thesis by auto
  next
    case False
    with e Cons.IH show ?thesis by auto
  qed
qed

lemma addStock_keys:
  "fst ` set (foldl (\<lambda>im ind. addToIndustry q ind im) im inds) = fst ` set im \<union> set inds \<and>
   (distinct (map fst im) \<longrightarrow> distinct (map fst (foldl (\<lambda>im ind. addToIndustry q ind im) im inds)))"
proof (induction inds arbitrary: im)
  case Nil
  then show ?case by simp
next
  case (Cons i inds)
  from addToIndustry_keys [of q i im] Cons.IH [of "addToIndustry q i im"] show ?case by auto
qed

lemma foldl_addStock_keys:
  "fst ` set (foldl (addStock s2i) im qs) =
     fst ` set im \<union> (\<Union>q\<in>set qs. set (case s2i (symbol q) of Some l \<Rightarrow> l | None \<Rightarrow> [''N/A''])) \<and>
   (distinct (map fst im) \<longrightarrow> distinct (map fst (foldl (addStock s2i) im qs)))"
proof (induction qs arbitrary: im)
  case Nil
  then show ?case by simp
next
  case (Cons q qs)
  define inds where "inds = (case s2i (symbol q) of Some l \<Rightarrow> l | None \<Rightarrow> [''N/A''])"
  have step: "addStock s2i im q = foldl (\<lambda>im ind. addToIndustry q ind im) im inds"
    by (simp add: addStock_def inds_def)
  from addStock_keys [of q im inds] have
    k1: "fst ` set (addStock s2i im q) = fst ` set im \<union> set inds"
    and d1: "distinct (map fst im) \<longrightarrow> distinct (map fst (addStock s2i im q))"
    unfolding step by simp_all
  from Cons.IH [of "addStock s2i im q"] have
    k2: "fst ` set (foldl (addStock s2i) (addStock s2i im q) qs) =
           fst ` set (addStock s2i im q) \<union>
           (\<Union>q\<in>set qs. set (case s2i (symbol q) of Some l \<Rightarrow> l | None \<Rightarrow> [''N/A'']))"
    and d2: "distinct (map fst (addStock s2i im q)) \<longrightarrow>
             distinct (map fst (foldl (addStock s2i) (addStock s2i im q) qs))"
    by simp_all
  have "fst ` set (foldl (addStock s2i) im (q # qs)) =
     fst ` set im \<union> (\<Union>q\<in>set (q # qs). set (case s2i (symbol q) of Some l \<Rightarrow> l | None \<Rightarrow> [''N/A'']))"
    using k2 unfolding k1 inds_def by auto
  moreover have "distinct (map fst im) \<longrightarrow> distinct (map fst (foldl (addStock s2i) im (q # qs)))"
    using d1 d2 by simp
  ultimately show ?case by (rule conjI)
qed

text \<open>The stocks of an industry are the results attributed to it, in the order of the results.\<close>

lemma stocksOf_addToIndustry:
  "stocksOf (addToIndustry q ind im) k = stocksOf im k @ (if k = ind then [q] else [])"
proof (induction im)
  case Nil
  then show ?case by (simp add: stocksOf_def)
next
  case (Cons e im)
  obtain k' m where e: "e = (k', m)" by (cases e)
  show ?case
  proof (cases "k' = ind")
    case True
    with e show ?thesis by (simp add: stocksOf_def)
  next
    case False
    show ?thesis
    proof (cases "k = k'")
      case True
      with False e show ?thesis by (simp add: stocksOf_def)
    next
      case k: False
      with False e have "stocksOf (addToIndustry q ind (e # im)) k = stocksOf (addToIndustry q ind im) k"
        by (simp add: stocksOf_def)
      moreover from k e have "stocksOf (e # im) k = stocksOf im k"
        by (simp add: stocksOf_def)
      ultimately show ?thesis by (simp only: Cons.IH)
    qed
  qed
qed

lemma stocksOf_addStock:
  "stocksOf (foldl (\<lambda>im ind. addToIndustry q ind im) im inds) k =
     stocksOf im k @ replicate (count_list inds k) q"
proof (induction inds arbitrary: im)
  case Nil
  then show ?case by simp
next
  case (Cons i inds)
  have "stocksOf (foldl (\<lambda>im ind. addToIndustry q ind im) im (i # inds)) k =
          stocksOf (addToIndustry q i im) k @ replicate (count_list inds k) q"
    by (simp add: Cons.IH)
  also have "\<dots> = stocksOf im k @ (if k = i then [q] else []) @ replicate (count_list inds k) q"
    by (simp add: stocksOf_addToIndustry)
  also have "(if k = i then [q] else []) @ replicate (count_list inds k) q =
             replicate (count_list (i # inds) k) q"
    by simp
  finally show ?case .
qed

lemma stocksOf_foldl_addStock:
  "stocksOf (foldl (addStock s2i) im qs) k =
     stocksOf im k @
     concat (map (\<lambda>q. replicate
                   (count_list (case s2i (symbol q) of Some l \<Rightarrow> l | None \<Rightarrow> [''N/A'']) k) q) qs)"
proof (induction qs arbitrary: im)
  case Nil
  then show ?case by simp
next
  case (Cons q qs)
  have "stocksOf (addStock s2i im q) k =
          stocksOf im k @
          replicate (count_list (case s2i (symbol q) of Some l \<Rightarrow> l | None \<Rightarrow> [''N/A'']) k) q"
    unfolding addStock_def by (rule stocksOf_addStock)
  with Cons.IH [of "addStock s2i im q"] show ?case by simp
qed

text \<open>What holds of every entry of \<open>industryMetrics\<close> while the results are added.\<close>

lemma addToIndustry_inv:
  assumes "\<forall>e\<in>set im. totalPChange (snd e) =
               foldl addDouble 0 (map (\<lambda>q. pChange (priceInfo q)) (memberStocks (snd e))) \<and>
             count (snd e) = length (memberStocks (snd e)) \<and> memberStocks (snd e) \<noteq> []"
  shows "\<forall>e\<in>set (addToIndustry q ind im).
           totalPChange (snd e) =
             foldl addDouble 0 (map (\<lambda>q. pChange (priceInfo q)) (memberStocks (snd e))) \<and>
           count (snd e) = length (memberStocks (snd e)) \<and> memberStocks (snd e) \<noteq> []"
  using assms
proof (induction im)
  case Nil
  then show ?case by simp
next
  case (Cons e im)
  obtain k m where e: "e = (k, m)" by (cases e)
  show ?case
  proof (cases "k = ind")
    case True
    with Cons.prems e show ?thesis by simp
  next
    case False
    from Cons.prems have "\<forall>e\<in>set im. totalPChange (snd e) =
               foldl addDouble 0 (map (\<lambda>q. pChange (priceInfo q)) (memberStocks (snd e))) \<and>
             count (snd e) = length (memberStocks (snd e)) \<and> memberStocks (snd e) \<noteq> []"
      by simp
    from Cons.IH [OF this] Cons.prems False e show ?thesis by simp
  qed
qed

lemma addStock_inv:
  assumes "\<forall>e\<in>set im. totalPChange (snd e) =
               foldl addDouble 0 (map (\<lambda>q. pChange (priceInfo q)) (memberStocks (snd e))) \<and>
             count (snd e) = length (memberStocks (snd e)) \<and> memberStocks (snd e) \<noteq> []"
  shows "\<forall>e\<in>set (addStock s2i im q).
           totalPChange (snd e) =
             foldl addDouble 0 (map (\<lambda>q. pChange (priceInfo q)) (memberStocks (snd e))) \<and>
           count (snd e) = length (memberStocks (snd e)) \<and> memberStocks (snd e) \<noteq> []"
proof -
  have "\<forall>e\<in>set (foldl (\<lambda>im ind. addToIndustry q ind im) im inds).
           totalPChange (snd e) =
             foldl addDouble 0 (map (\<lambda>q. pChange (priceInfo q)) (memberStocks (snd e))) \<and>
           count (snd e) = length (memberStocks (snd e)) \<and> memberStocks (snd e) \<noteq> []" for inds
    using assms
  proof (induction inds arbitrary: im)
    case Nil
    then show ?case by simp
  next
    case (Cons i inds)
    from Cons.IH [OF addToIndustry_inv [OF Cons.prems, of q i]] show ?case by simp
  qed
  then show ?thesis by (simp add: addStock_def)
qed

lemma foldl_addStock_inv:
  assumes "\<forall>e\<in>set im. totalPChange (snd e) =
               foldl addDouble 0 (map (\<lambda>q. pChange (priceInfo q)) (memberStocks (snd e))) \<and>
             count (snd e) = length (memberStocks (snd e)) \<and> memberStocks (snd e) \<noteq> []"
  shows "\<forall>e\<in>set (foldl (addStock s2i) im qs).
           totalPChange (snd e) =
             foldl addDouble 0 (map (\<lambda>q. pChange (priceInfo q)) (memberStocks (snd e))) \<and>
           count (snd e) = length (memberStocks (snd e)) \<and> memberStocks (snd e) \<noteq> []"
  using assms
proof (induction qs arbitrary: im)
  case Nil
  then show ?case by simp
next
  case (Cons q qs)
  from Cons.IH [OF addStock_inv [OF Cons.prems, of s2i q]] show ?case by simp
qed

lemma aggregate_members:
  assumes "(k, m) \<in> set (foldl (addStock s2i) [] vr)"
  shows "memberStocks m =
           concat (map (\<lambda>q. replicate
                   (count_list (case s2i (symbol q) of Some l \<Rightarrow> l | None \<Rightarrow> [''N/A'']) k) q) vr) \<and>
         totalPChange m = foldl addDouble 0 (map (\<lambda>q. pChange (priceInfo q)) (memberStocks m)) \<and>
         count m = length (memberStocks m) \<and> memberStocks m \<noteq> []"
proof -
  from foldl_addStock_keys [of s2i "[]" vr] have "distinct (map fst (foldl (addStock s2i) [] vr))"
    by simp
  with assms have "map_of (foldl (addStock s2i) [] vr) k = Some m" by simp
  then have "stocksOf (foldl (addStock s2i) [] vr) k = memberStocks m"
    by (simp add: stocksOf_def)
  with stocksOf_foldl_addStock [of s2i "[]" vr k]
  have a: "memberStocks m =
           concat (map (\<lambda>q. replicate
                   (count_list (case s2i (symbol q) of Some l \<Rightarrow> l | None \<Rightarrow> [''N/A'']) k) q) vr)"
    by (simp add: stocksOf_def)
  have "\<forall>e\<in>set ([] :: (string \<times> metrics) list).
          totalPChange (snd e) =
            foldl addDouble 0 (map (\<lambda>q. pChange (priceInfo q)) (memberStocks (snd e))) \<and>
          count (snd e) = length (memberStocks (snd e)) \<and> memberStocks (snd e) \<noteq> []"
    by simp
  from foldl_addStock_inv [OF this, of s2i vr] assms
  have b: "totalPChange m = foldl addDouble 0 (map (\<lambda>q. pChange (priceInfo q)) (memberStocks m)) \<and>
         count m = length (memberStocks m) \<and> memberStocks m \<noteq> []"
    by auto
  from a b show ?thesis by (rule conjI)
qed

lemma toEntry_props:
  assumes "totalPChange m = foldl addDouble 0 (map (\<lambda>q. pChange (priceInfo q)) (memberStocks m))"
    and "count m = length (memberStocks m)" and "memberStocks m \<noteq> []"
  shows "industry (toEntry (k, m)) = k \<and>
         stockCount (toEntry (k, m)) = length (memberStocks m) \<and>
         stocks (toEntry (k, m)) = sortDescending (\<lambda>q. pChange (priceInfo q)) (memberStocks m) \<and>
         topStock (toEntry (k, m)) = Some (hd (stocks (toEntry (k, m)))) \<and>
         avgPChange (toEntry (k, m)) =
           Fixed (toFixed2 (divDouble (foldl addDouble 0 (map (\<lambda>q. pChange (priceInfo q)) (memberStocks m)))
                                      (of_nat (length (memberStocks m)))))"
proof -
  let ?pc = "\<lambda>q. pChange (priceInfo q)"
  let ?ss = "sortDescending ?pc (memberStocks m)"
  note sp = sortDescending_props [of ?pc "memberStocks m"]
  have st: "stocks (toEntry (k, m)) = ?ss" by (simp add: toEntry_def Let_def)
  from sp assms(3) have ne: "?ss \<noteq> []" by (metis length_0_conv)
  have top: "topStock (toEntry (k, m)) = Some (hd ?ss)"
    using ne by (cases ?ss) (simp_all add: toEntry_def Let_def)
  have avg: "avgPChange (toEntry (k, m)) =
      Fixed (toFixed2 (divDouble (foldl addDouble 0 (map ?pc (memberStocks m)))
                                 (of_nat (length (memberStocks m)))))"
    using assms by (simp add: toEntry_def Let_def)
  have cnt: "stockCount (toEntry (k, m)) = length (memberStocks m)"
    using assms(2) by (simp add: toEntry_def Let_def)
  have ind: "industry (toEntry (k, m)) = k" by (simp add: toEntry_def Let_def)
  from top avg cnt ind show ?thesis unfolding st by simp
qed

lemma aggregateIndustries_entry:
  assumes "e \<in> set (aggregateIndustries s2i vr)"
  shows "\<exists>k m. (k, m) \<in> set (foldl (addStock s2i) [] vr) \<and> e = toEntry (k, m)"
proof -
  from assms have "e \<in> set (map toEntry (foldl (addStock s2i) [] vr))"
    by (simp add: aggregateIndustries_def Let_def sortDescending_def)
  then show ?thesis by auto
qed

text \<open>Every industry with a result has one entry in the output.\<close>

lemma aggregate_industries:
  "distinct (map industry (aggregateIndustries s2i vr)) \<and>
   industry ` set (aggregateIndustries s2i vr) =
     (\<Union>q\<in>set vr. set (case s2i (symbol q) of Some l \<Rightarrow> l | None \<Rightarrow> [''N/A'']))"
proof -
  define im where "im = foldl (addStock s2i) [] vr"
  from foldl_addStock_keys [of s2i "[]" vr] have keys: "fst ` set im =
      (\<Union>q\<in>set vr. set (case s2i (symbol q) of Some l \<Rightarrow> l | None \<Rightarrow> [''N/A'']))"
    and dist: "distinct (map fst im)"
    by (simp_all add: im_def)
  have cnt: "\<forall>e\<in>set (map toEntry im). stockCount e > 0"
  proof
    fix e assume "e \<in> set (map toEntry im)"
    then obtain k m where km: "(k, m) \<in> set im" and e: "e = toEntry (k, m)" by auto
    note am = aggregate_members [OF km [unfolded im_def]]
    from am [THEN conjunct2, THEN conjunct2] have "count m = length (memberStocks m)"
      and "memberStocks m \<noteq> []" by blast+
    then show "stockCount e > 0" by (simp add: e toEntry_def Let_def)
  qed
  then have all: "filter (\<lambda>e. stockCount e > 0) (map toEntry im) = map toEntry im"
    by (simp only: filter_True)
  have out: "aggregateIndustries s2i vr = sortDescending avgKey (map toEntry im)"
    by (simp add: aggregateIndustries_def Let_def im_def [symmetric] all)
  have names: "map industry (map toEntry im) = map fst im"
    by (simp add: toEntry_def Let_def)
  have "mset (aggregateIndustries s2i vr) = mset (map toEntry im)"
    unfolding out by (simp add: sortDescending_def)
  then have "image_mset industry (mset (aggregateIndustries s2i vr)) =
             image_mset industry (mset (map toEntry im))"
    by (rule arg_cong)
  then have "mset (map industry (aggregateIndustries s2i vr)) = mset (map industry (map toEntry im))"
    by (simp only: mset_map)
  then have ms: "mset (map industry (aggregateIndustries s2i vr)) = mset (map fst im)"
    by (simp only: names)
  with dist have a: "distinct (map industry (aggregateIndustries s2i vr))"
    by (metis mset_eq_imp_distinct_iff)
  from ms have "set (map industry (aggregateIndustries s2i vr)) = set (map fst im)"
    by (rule mset_eq_setD)
  then have b: "industry ` set (aggregateIndustries s2i vr) =
     (\<Union>q\<in>set vr. set (case s2i (symbol q) of Some l \<Rightarrow> l | None \<Rightarrow> [''N/A'']))"
    by (simp add: keys)
  from a b show ?thesis by (rule conjI)
qed

text \<open>The example of the specification, evaluated.\<close>

lemma techIndex_A: "techIndex ''A'' = Some [''Tech'']" and techIndex_B: "techIndex ''B'' = Some [''Tech'']"
  by (simp_all add: techIndex_def MAX_SYMBOLS_PER_INDUSTRY_def)

lemma sum_2_4: "addDouble (addDouble 0 2) 4 = 6"
  by (simp add: addDouble_def roundDouble_2 roundDouble_6)

lemma mean_2_4: "divDouble 6 2 = 3"
  by (simp add: divDouble_def roundDouble_3)

lemma hundredths_3: "hundredths 3 = 300"
proof -
  have "\<lfloor>(3::rat) * 100 + 1 / 2\<rfloor> = 300" by (rule floor_unique) simp_all
  then show ?thesis by (simp add: hundredths_def)
qed

lemma decimal_300: "decimal 300 = ''300''"
  by (simp add: decimal.simps [of 300] decimal.simps [of 30] decimal.simps [of 3] digitChar_def)

lemma toFixed2_3: "toFixed2 3 = ''3.00''"
  by (simp add: toFixed2_def hundredths_3 decimal_300 Let_def)

lemma aggregate_example: "aggregateIndustries techIndex [sampleQuote ''A'' 2, sampleQuote ''B'' 4] =
   [\<lparr>industry = ''Tech'', avgPChange = Fixed ''3.00'', stockCount = 2,
             stocks = [sampleQuote ''B'' 4, sampleQuote ''A'' 2],
             topStock = Some (sampleQuote ''B'' 4)\<rparr>]"
  by (simp add: aggregateIndustries_def addStock_def toEntry_def sortDescending_def
        sampleQuote_def techIndex_A techIndex_B sum_2_4 mean_2_4 toFixed2_3 Let_def)

lemma aggregate_1_01:
  "map avgPChange (aggregateIndustries techIndex [sampleQuote ''A'' 1, sampleQuote ''B'' nearest_1_01])
     = [Fixed ''1.00'']"
  by (simp add: aggregateIndustries_def addStock_def toEntry_def sortDescending_def
        sampleQuote_def techIndex_A techIndex_B sum_1_01 mean_1_01
        toFixed2_double_mean Let_def)

section \<open>The handlers\<close>

lemma BATCH_SIZE_pos: "0 < BATCH_SIZE"
  by (simp add: BATCH_SIZE_def)

lemma marketData_no_symbols:
  assumes "filterBoolean (map rowSymbol (nifty500Data g)) = []"
  shows "marketDataHandler E g refresh s =
           Some (s, \<lparr>status = 500, body = Error ''No symbols loaded from NIFTY500.xlsx''\<rparr>)"
  using assms by (simp add: marketDataHandler_def Let_def SKIP_NIFTY500_VALIDATION_def)

lemma marketData_no_quotes:
  assumes "filterBoolean (map rowSymbol (nifty500Data g)) \<noteq> []"
    and "fetchEquityDetailsInBatches E g (filterBoolean (map rowSymbol (nifty500Data g)))
             BATCH_SIZE (refresh = Some ''true'') s = Some (s1, Inr r)"
    and "results r = []"
  shows "marketDataHandler E g refresh s =
           Some (s1, \<lparr>status = 500, body = Error ''No valid market data retrieved''\<rparr>)"
  using assms by (simp add: marketDataHandler_def Let_def SKIP_NIFTY500_VALIDATION_def)

lemma industryData_empty_index:
  assumes "industryData g = []"
  shows "industryDataHandler E g refresh s =
           Some (s\<lparr>nowReads := Suc (nowReads s)\<rparr>,
                 \<lparr>status = 200,
                  body = Industry \<lparr>industries = [], industryCached = False,
                                   industryTimestamp = clock E (nowReads s),
                                   warning = Some ''No industry data available''\<rparr>\<rparr>)"
  using assms by (simp add: industryDataHandler_def Let_def)

lemma industryData_fetched:
  assumes "industryData g \<noteq> []"
    and "indexIndustries (industryData g) ([], Map.empty) = (allSymbols, s2i)"
    and "fetchEquityDetailsInBatches E g allSymbols BATCH_SIZE (refresh = Some ''true'') s = Some (s1, Inr r)"
    and "results r \<noteq> []"
  shows "industryDataHandler E g refresh s =
           Some (s1\<lparr>nowReads := Suc (nowReads s1)\<rparr>,
                 \<lparr>status = 200,
                  body = Industry \<lparr>industries = aggregateIndustries s2i (results r),
                                   industryCached = cached r,
                                   industryTimestamp = clock E (nowReads s1),
                                   warning = None\<rparr>\<rparr>)"
  using assms by (simp add: industryDataHandler_def Let_def)

lemma industryData_second_pass:
  assumes "industryData g \<noteq> []"
    and "indexIndustries (industryData g) ([], Map.empty) = (allSymbols, s2i)"
    and "fetchEquityDetailsInBatches E g allSymbols BATCH_SIZE (refresh = Some ''true'') s = Some (s1, Inr r)"
    and "results r = []"
    and "cacheOnlyLoop E allSymbols (s1, []) = (s2, cachedResults)"
  shows "industryDataHandler E g refresh s =
           (if cachedResults = []
            then Some (s2\<lparr>nowReads := Suc (nowReads s2)\<rparr>,
                 \<lparr>status = 200,
                  body = Industry \<lparr>industries = [], industryCached = False,
                                   industryTimestamp = clock E (nowReads s2),
                                   warning = Some ''No valid industry data retrieved''\<rparr>\<rparr>)
            else Some (s2\<lparr>nowReads := Suc (nowReads s2)\<rparr>,
                 \<lparr>status = 200,
                  body = Industry \<lparr>industries = aggregateIndustries s2i cachedResults,
                                   industryCached = True,
                                   industryTimestamp = clock E (nowReads s2),
                                   warning = None\<rparr>\<rparr>))"
  using assms by (simp add: industryDataHandler_def Let_def)






text \<open>
  Claim C1. Whenever \<open>fetchEquityDetailsInBatches\<close> returns, every quote of its result,
  served from the cache or freshly fetched, carries a symbol of the registry's
  \<open>allSymbolsSet\<close> (and of the input list).
\<close>

theorem quotes_registered:
  assumes "fetchEquityDetailsInBatches E g symbols batchSize forceRefresh s = Some (s', Inr r)"
    and "q \<in> set (results r)"
  shows "symbol q \<in> allSymbolsSet g \<and> symbol q \<in> set symbols"
  using fetch_symbols [OF assms(1)] assms(2) by blast

theorem quotes_registered_witness:
  "\<exists>s' r q. fetchEquityDetailsInBatches mixedEnv fallbackRegistry
               [''PFC'', ''TCS'', ''ZZZ'', ''INFY''] 2 False warmSys = Some (s', Inr r) \<and>
     q \<in> set (results r) \<and> symbol q \<in> allSymbolsSet fallbackRegistry \<and>
     symbol q \<in> set [''PFC'', ''TCS'', ''ZZZ'', ''INFY'']"
proof -
  have "map_option (map symbol)
          (quotesOf (fetchEquityDetailsInBatches mixedEnv fallbackRegistry
             [''PFC'', ''TCS'', ''ZZZ'', ''INFY''] 2 False warmSys))
        = Some [''TCS'']"
    by code_simp
  then obtain qs where
    "quotesOf (fetchEquityDetailsInBatches mixedEnv fallbackRegistry
       [''PFC'', ''TCS'', ''ZZZ'', ''INFY''] 2 False warmSys) = Some qs"
    and m: "map symbol qs = [''TCS'']"
    by auto
  from quotesOf_Some [OF this(1)] obtain s' r where
    f: "fetchEquityDetailsInBatches mixedEnv fallbackRegistry
          [''PFC'', ''TCS'', ''ZZZ'', ''INFY''] 2 False warmSys = Some (s', Inr r)"
    and r: "results r = qs"
    by blast
  from m r obtain q where q: "q \<in> set (results r)"
    by (cases "results r") auto
  from quotes_registered [OF f q] f q show ?thesis by blast
qed

section \<open>Freshness of cached quotes\<close>

lemma cacheLoop_hits:
  "cacheLoop E xs (s, res, unc, hits) = (s', res', unc', hits') \<Longrightarrow>
   cache s' = cache s \<and> nowReads s \<le> nowReads s' \<and>
   (\<exists>new. res' = res @ new \<and>
      (\<forall>q \<in> set new. \<exists>c k. cache s (symbol q) = Some c \<and> q = cachedStock (symbol q) c \<and>
          nowReads s \<le> k \<and> k < nowReads s' \<and> clock E k - timestamp c < 300 * 1000))"
proof (induction xs arbitrary: s res unc hits)
  case Nil
  then show ?case by simp
next
  case (Cons x xs)
  show ?case
  proof (cases "cache s x")
    case None
    with Cons.prems have "cacheLoop E xs (s, res, unc @ [x], hits) = (s', res', unc', hits')"
      by simp
    from Cons.IH [OF this] show ?thesis .
  next
    case (Some c)
    let ?s1 = "s\<lparr>nowReads := Suc (nowReads s)\<rparr>"
    show ?thesis
    proof (cases "timestamp c > clock E (nowReads s) - 300 * 1000")
      case True
      with Some Cons.prems
      have "cacheLoop E xs (?s1, res @ [cachedStock x c], unc, hits + 1) = (s', res', unc', hits')"
        by (simp add: Let_def)
      from Cons.IH [OF this] obtain new where
        c: "cache s' = cache s" and n: "Suc (nowReads s) \<le> nowReads s'"
        and r: "res' = (res @ [cachedStock x c]) @ new"
        and f: "\<forall>q \<in> set new. \<exists>c k. cache s (symbol q) = Some c \<and> q = cachedStock (symbol q) c \<and>
                  Suc (nowReads s) \<le> k \<and> k < nowReads s' \<and> clock E k - timestamp c < 300 * 1000"
        by auto
      have here: "cache s (symbol (cachedStock x c)) = Some c \<and>
                  cachedStock x c = cachedStock (symbol (cachedStock x c)) c \<and>
                  nowReads s \<le> nowReads s \<and> nowReads s < nowReads s' \<and>
                  clock E (nowReads s) - timestamp c < 300 * 1000"
        using Some True n by (simp add: cachedStock_def)
      have "\<forall>q \<in> set (cachedStock x c # new). \<exists>c k. cache s (symbol q) = Some c \<and>
              q = cachedStock (symbol q) c \<and> nowReads s \<le> k \<and> k < nowReads s' \<and>
              clock E k - timestamp c < 300 * 1000"
      proof
        fix q assume "q \<in> set (cachedStock x c # new)"
        then consider "q = cachedStock x c" | "q \<in> set new" by auto
        then show "\<exists>c k. cache s (symbol q) = Some c \<and> q = cachedStock (symbol q) c \<and>
              nowReads s \<le> k \<and> k < nowReads s' \<and> clock E k - timestamp c < 300 * 1000"
        proof cases
          case 1
          with here show ?thesis by blast
        next
          case 2
          with f obtain c' k where "cache s (symbol q) = Some c'" "q = cachedStock (symbol q) c'"
            "Suc (nowReads s) \<le> k" "k < nowReads s'" "clock E k - timestamp c' < 300 * 1000"
            by blast
          moreover then have "nowReads s \<le> k" by simp
          ultimately show ?thesis by blast
        qed
      qed
      moreover from r have "res' = res @ (cachedStock x c # new)" by simp
      ultimately show ?thesis using c n by (intro conjI exI [of _ "cachedStock x c # new"]) simp_all
    next
      case False
      with Some Cons.prems
      have "cacheLoop E xs (?s1, res, unc @ [x], hits) = (s', res', unc', hits')"
        by (simp add: Let_def)
      from Cons.IH [OF this] obtain new where
        c: "cache s' = cache s" and n: "Suc (nowReads s) \<le> nowReads s'"
        and r: "res' = res @ new"
        and f: "\<forall>q \<in> set new. \<exists>c k. cache s (symbol q) = Some c \<and> q = cachedStock (symbol q) c \<and>
                  Suc (nowReads s) \<le> k \<and> k < nowReads s' \<and> clock E k - timestamp c < 300 * 1000"
        by auto
      have "\<forall>q \<in> set new. \<exists>c k. cache s (symbol q) = Some c \<and>
              q = cachedStock (symbol q) c \<and> nowReads s \<le> k \<and> k < nowReads s' \<and>
              clock E k - timestamp c < 300 * 1000"
      proof
        fix q assume "q \<in> set new"
        with f obtain c' k where "cache s (symbol q) = Some c'" "q = cachedStock (symbol q) c'"
            "Suc (nowReads s) \<le> k" "k < nowReads s'" "clock E k - timestamp c' < 300 * 1000"
          by blast
        moreover then have "nowReads s \<le> k" by simp
        ultimately show "\<exists>c k. cache s (symbol q) = Some c \<and> q = cachedStock (symbol q) c \<and>
              nowReads s \<le> k \<and> k < nowReads s' \<and> clock E k - timestamp c < 300 * 1000"
          by blast
      qed
      with c n r show ?thesis by (intro conjI exI [of _ new]) simp_all
    qed
  qed
qed

lemma cacheLoop_keeps_misses:
  "cacheLoop E xs (s, res, unc, hits) = (s', res', unc', hits') \<Longrightarrow> set unc \<subseteq> set unc'"
proof (induction xs arbitrary: s res unc hits)
  case Nil
  then show ?case by simp
next
  case (Cons x xs)
  show ?case
  proof (cases "cache s x")
    case None
    with Cons.prems have "cacheLoop E xs (s, res, unc @ [x], hits) = (s', res', unc', hits')"
      by simp
    from Cons.IH [OF this] show ?thesis by simp
  next
    case (Some c)
    show ?thesis
    proof (cases "timestamp c > clock E (nowReads s) - 300 * 1000")
      case True
      with Some Cons.prems
      have "cacheLoop E xs (s\<lparr>nowReads := Suc (nowReads s)\<rparr>, res @ [cachedStock x c], unc, hits + 1)
            = (s', res', unc', hits')"
        by (simp add: Let_def)
      from Cons.IH [OF this] show ?thesis .
    next
      case False
      with Some Cons.prems
      have "cacheLoop E xs (s\<lparr>nowReads := Suc (nowReads s)\<rparr>, res, unc @ [x], hits)
            = (s', res', unc', hits')"
        by (simp add: Let_def)
      from Cons.IH [OF this] show ?thesis by simp
    qed
  qed
qed

lemma cacheLoop_stale:
  "cacheLoop E xs (s, res, unc, hits) = (s', res', unc', hits') \<Longrightarrow>
   x \<in> set xs \<Longrightarrow> cache s x = Some c \<Longrightarrow>
   \<forall>k. nowReads s \<le> k \<and> k < nowReads s' \<longrightarrow> 300 * 1000 \<le> clock E k - timestamp c \<Longrightarrow>
   x \<in> set unc'"
proof (induction xs arbitrary: s res unc hits)
  case Nil
  then show ?case by simp
next
  case (Cons y ys)
  let ?s1 = "s\<lparr>nowReads := Suc (nowReads s)\<rparr>"
  have later: "\<forall>k. nowReads ?s1 \<le> k \<and> k < nowReads s' \<longrightarrow> 300 * 1000 \<le> clock E k - timestamp c"
    using Cons.prems(4) by simp
  show ?case
  proof (cases "y = x")
    case True
    show ?thesis
    proof (cases "timestamp c > clock E (nowReads s) - 300 * 1000")
      case fresh: True
      with True Cons.prems(1,3)
      have run: "cacheLoop E ys (?s1, res @ [cachedStock x c], unc, hits + 1) = (s', res', unc', hits')"
        by (simp add: Let_def)
      from cacheLoop_hits [OF run] have "nowReads s < nowReads s'" by simp
      with Cons.prems(4) have "300 * 1000 \<le> clock E (nowReads s) - timestamp c" by simp
      with fresh show ?thesis by simp
    next
      case False
      with True Cons.prems(1,3)
      have "cacheLoop E ys (?s1, res, unc @ [x], hits) = (s', res', unc', hits')"
        by (simp add: Let_def)
      from cacheLoop_keeps_misses [OF this] show ?thesis by simp
    qed
  next
    case False
    with Cons.prems(2) have mem: "x \<in> set ys" by simp
    show ?thesis
    proof (cases "cache s y")
      case None
      with Cons.prems(1) have "cacheLoop E ys (s, res, unc @ [y], hits) = (s', res', unc', hits')"
        by simp
      from Cons.IH [OF this mem Cons.prems(3,4)] show ?thesis .
    next
      case (Some d)
      have c1: "cache ?s1 x = Some c" using Cons.prems(3) by simp
      show ?thesis
      proof (cases "timestamp d > clock E (nowReads s) - 300 * 1000")
        case True
        with Some Cons.prems(1)
        have "cacheLoop E ys (?s1, res @ [cachedStock y d], unc, hits + 1) = (s', res', unc', hits')"
          by (simp add: Let_def)
        from Cons.IH [OF this mem c1 later] show ?thesis .
      next
        case False
        with Some Cons.prems(1)
        have "cacheLoop E ys (?s1, res, unc @ [y], hits) = (s', res', unc', hits')"
          by (simp add: Let_def)
        from Cons.IH [OF this mem c1 later] show ?thesis .
      qed
    qed
  qed
qed

lemma cacheSetAll_stamps:
  "cache (cacheSetAll E s [q]) (symbol q) =
     Some \<lparr>cachedPChange = pChange (priceInfo q), cachedLastPrice = lastPrice (priceInfo q),
           cachedCompanyName = companyName (info q), timestamp = clock E (nowReads s)\<rparr> \<and>
   nowReads (cacheSetAll E s [q]) = Suc (nowReads s)"
  by simp

text \<open>
  Claim C5. In the cache pass of \<open>fetchEquityDetailsInBatches\<close> every quote served from
  the cache comes from an entry whose age, at the clock reading taken for it, is below
  300 seconds. A symbol whose entry is 300 seconds old or older at every reading that
  the pass takes is put on the list of symbols to fetch and is not served, although the
  entry is still in the store: the pass leaves the store as it is.
\<close>

theorem cache_freshness:
  assumes "cacheLoop E validSymbols (s, [], [], 0) = (s', hits, uncachedSymbols, cacheHits)"
  shows "(\<forall>q \<in> set hits. \<exists>c k. cache s (symbol q) = Some c \<and> q = cachedStock (symbol q) c \<and>
            nowReads s \<le> k \<and> k < nowReads s' \<and> clock E k - timestamp c < 300 * 1000) \<and>
         (\<forall>x c. x \<in> set validSymbols \<and> cache s x = Some c \<and>
                 (\<forall>k. nowReads s \<le> k \<and> k < nowReads s' \<longrightarrow>
                      300 * 1000 \<le> clock E k - timestamp c) \<longrightarrow>
                 x \<in> set uncachedSymbols \<and> x \<notin> symbol ` set hits) \<and>
         cache s' = cache s"
proof (intro conjI allI impI)
  from cacheLoop_hits [OF assms]
  show "\<forall>q \<in> set hits. \<exists>c k. cache s (symbol q) = Some c \<and> q = cachedStock (symbol q) c \<and>
            nowReads s \<le> k \<and> k < nowReads s' \<and> clock E k - timestamp c < 300 * 1000"
    by simp
  from cacheLoop_hits [OF assms] show "cache s' = cache s" by simp
next
  fix x c
  assume h: "x \<in> set validSymbols \<and> cache s x = Some c \<and>
    (\<forall>k. nowReads s \<le> k \<and> k < nowReads s' \<longrightarrow> 300 * 1000 \<le> clock E k - timestamp c)"
  then have mem: "x \<in> set validSymbols" and entry: "cache s x = Some c"
    and stale: "\<forall>k. nowReads s \<le> k \<and> k < nowReads s' \<longrightarrow> 300 * 1000 \<le> clock E k - timestamp c"
    by simp_all
  from cacheLoop_stale [OF assms mem entry stale] show "x \<in> set uncachedSymbols" .
  show "x \<notin> symbol ` set hits"
  proof
    assume "x \<in> symbol ` set hits"
    then obtain q where q: "q \<in> set hits" and x: "x = symbol q" by blast
    from cacheLoop_hits [OF assms] q obtain c' k where
      "cache s (symbol q) = Some c'" and "nowReads s \<le> k" and "k < nowReads s'"
      and "clock E k - timestamp c' < 300 * 1000"
      by auto
    with entry x have "clock E k - timestamp c < 300 * 1000" and "nowReads s \<le> k \<and> k < nowReads s'"
      by simp_all
    with stale show False by fastforce
  qed
qed

text \<open>
  Two examples: a warm cache with a fresh and a stale entry, and an entry that the
  server itself wrote and reads again 400 seconds later.
\<close>

theorem cache_freshness_witness:
  "(\<exists>s' hits uncachedSymbols cacheHits.
     cacheLoop mixedEnv [''TCS'', ''PFC'', ''PEL''] (warmSys, [], [], 0) =
       (s', hits, uncachedSymbols, cacheHits) \<and>
     map symbol hits = [''TCS''] \<and>
     (\<forall>q \<in> set hits. \<exists>c k. cache warmSys (symbol q) = Some c \<and> q = cachedStock (symbol q) c \<and>
        nowReads warmSys \<le> k \<and> k < nowReads s' \<and> clock mixedEnv k - timestamp c < 300 * 1000) \<and>
     ''PFC'' \<in> set uncachedSymbols \<and> ''PFC'' \<notin> symbol ` set hits \<and>
     cache s' ''PFC'' = cache warmSys ''PFC'' \<and> cache warmSys ''PFC'' \<noteq> None) \<and>
   (\<exists>s' hits uncachedSymbols cacheHits.
     cacheLoop laterEnv [''TCS'']
       (cacheSetAll laterEnv freshSys [sampleQuote ''TCS'' 2], [], [], 0) =
       (s', hits, uncachedSymbols, cacheHits) \<and>
     cache (cacheSetAll laterEnv freshSys [sampleQuote ''TCS'' 2]) ''TCS'' \<noteq> None \<and>
     ''TCS'' \<in> set uncachedSymbols \<and> ''TCS'' \<notin> symbol ` set hits)"
proof -
  obtain s' hits uncachedSymbols cacheHits where
    run: "cacheLoop mixedEnv [''TCS'', ''PFC'', ''PEL''] (warmSys, [], [], 0) = (s', hits, uncachedSymbols, cacheHits)"
    using prod_cases4 by blast
  have "(case cacheLoop mixedEnv [''TCS'', ''PFC'', ''PEL''] (warmSys, [], [], 0) of
           (s', hits, uncachedSymbols, cacheHits) \<Rightarrow> map symbol hits) = [''TCS'']"
    by code_simp
  with run have hits: "map symbol hits = [''TCS'']" by simp
  have entry: "cache warmSys ''PFC'' = Some \<lparr>cachedPChange = - 1, cachedLastPrice = 400,
                            cachedCompanyName = JStr ''Power Finance'', timestamp = 1000\<rparr>"
    by (simp add: warmSys_def)
  have stale: "\<forall>k. nowReads warmSys \<le> k \<and> k < nowReads s' \<longrightarrow>
      300 * 1000 \<le> clock mixedEnv k - timestamp \<lparr>cachedPChange = - 1, cachedLastPrice = 400,
                            cachedCompanyName = JStr ''Power Finance'', timestamp = 1000\<rparr>"
    by (simp add: mixedEnv_def sampleClock_def)
  from cache_freshness [OF run] entry stale
  have "''PFC'' \<in> set uncachedSymbols \<and> ''PFC'' \<notin> symbol ` set hits"
    by simp
  with cache_freshness [OF run] hits run entry
  have first: "\<exists>s' hits uncachedSymbols cacheHits.
     cacheLoop mixedEnv [''TCS'', ''PFC'', ''PEL''] (warmSys, [], [], 0) =
       (s', hits, uncachedSymbols, cacheHits) \<and>
     map symbol hits = [''TCS''] \<and>
     (\<forall>q \<in> set hits. \<exists>c k. cache warmSys (symbol q) = Some c \<and> q = cachedStock (symbol q) c \<and>
        nowReads warmSys \<le> k \<and> k < nowReads s' \<and> clock mixedEnv k - timestamp c < 300 * 1000) \<and>
     ''PFC'' \<in> set uncachedSymbols \<and> ''PFC'' \<notin> symbol ` set hits \<and>
     cache s' ''PFC'' = cache warmSys ''PFC'' \<and> cache warmSys ''PFC'' \<noteq> None"
    by auto
  let ?w = "cacheSetAll laterEnv freshSys [sampleQuote ''TCS'' 2]"
  let ?c = "\<lparr>cachedPChange = pChange (priceInfo (sampleQuote ''TCS'' 2)),
             cachedLastPrice = lastPrice (priceInfo (sampleQuote ''TCS'' 2)),
             cachedCompanyName = companyName (info (sampleQuote ''TCS'' 2)),
             timestamp = clock laterEnv (nowReads freshSys)\<rparr>"
  obtain t' hits' unc' n' where
    run2: "cacheLoop laterEnv [''TCS''] (?w, [], [], 0) = (t', hits', unc', n')"
    using prod_cases4 by blast
  from cacheSetAll_stamps [of laterEnv freshSys "sampleQuote ''TCS'' 2"]
  have written: "cache ?w ''TCS'' = Some ?c" and reads: "nowReads ?w = Suc (nowReads freshSys)"
    by (simp_all add: sampleQuote_def)
  have old: "\<forall>k. nowReads ?w \<le> k \<and> k < nowReads t' \<longrightarrow>
               300 * 1000 \<le> clock laterEnv k - timestamp ?c"
    unfolding reads by (simp add: laterEnv_def jumpClock_def freshSys_def)
  from cache_freshness [OF run2] written old
  have "''TCS'' \<in> set unc' \<and> ''TCS'' \<notin> symbol ` set hits'"
    by simp
  with run2 written have second: "\<exists>s' hits uncachedSymbols cacheHits.
     cacheLoop laterEnv [''TCS''] (?w, [], [], 0) = (s', hits, uncachedSymbols, cacheHits) \<and>
     cache ?w ''TCS'' \<noteq> None \<and>
     ''TCS'' \<in> set uncachedSymbols \<and> ''TCS'' \<notin> symbol ` set hits"
    by auto
  from first second show ?thesis by (rule conjI)
qed

section \<open>Isolation of failures within a batch\<close>









text \<open>
  Claim C2, as the code has it. Let every value the provider throws be an error with a
  message (anything but \<open>null\<close> and \<open>undefined\<close>). The retry loop of a batch makes at
  most five attempts in all, the first one and up to four retries: after \<open>j\<close> failed
  attempts (numbered from 1 on the console) it has waited 1000 ms after each of them but
  the fifth; with fewer than five failures the batch succeeded and its quotes are
  appended; after the fifth failure the skip is logged and the batch is abandoned, the
  results and the cache being what they were. \<open>fetchEquityDetailsInBatches\<close> returns
  normally for every positive batch size. When every call of the provider throws, it
  returns the quotes served from the cache and nothing else, having made five attempts
  for each batch (each ends at the batch's first call), with four waits of 1000 ms
  within a batch and the delay between batches, and the cache is unchanged.
\<close>

theorem batch_retry:
  assumes "\<forall>k symb v. getEquityDetails E k symb = SyncThrow v \<longrightarrow> \<not> nullish v"
  shows "(retryLoop E index batch MAX_RETRIES (s, res) = (s', out) \<longrightarrow>
            (\<exists>j\<le>5. console s' = console s @ map (BatchError (index + 1)) [1..<1 + j] @
                        (if j = 5 then [BatchSkipped (index + 1)] else []) \<and>
                    timers s' = timers s @ replicate (if j = 5 then 4 else j) 1000 \<and>
                    (j = 5 \<longrightarrow> out = Inr res \<and> cache s' = cache s) \<and>
                    (j < 5 \<longrightarrow> (\<exists>vr. out = Inr (res @ vr))))) \<and>
         (0 < batchSize \<longrightarrow>
            (\<exists>s2 r. fetchEquityDetailsInBatches E g symbols batchSize forceRefresh st = Some (s2, Inr r))) \<and>
         (0 < batchSize \<and> (\<forall>k symb. \<exists>v. getEquityDetails E k symb = SyncThrow v) \<and>
          (if \<not> forceRefresh \<and> \<not> FORCE_CACHE_BYPASS E
           then cacheLoop E (filter (\<lambda>symb. symb \<in> allSymbolsSet g \<and> trim symb \<noteq> []) symbols) (st, [], [], 0)
           else (st, [], filter (\<lambda>symb. symb \<in> allSymbolsSet g \<and> trim symb \<noteq> []) symbols, 0))
            = (s1, res0, unc, hits) \<longrightarrow>
            fetchEquityDetailsInBatches E g symbols batchSize forceRefresh st =
              Some (s1\<lparr>apiCalls := apiCalls s1 + 5 * length (sliceLoop batchSize unc 0),
                       console := console s1 @
                         concat (map (\<lambda>i. map (BatchError (i + 1)) [1..<6] @ [BatchSkipped (i + 1)])
                                   [0..<length (sliceLoop batchSize unc 0)]),
                       timers := timers s1 @
                         concat (map (\<lambda>i. replicate 4 1000 @
                                           (if i < length (sliceLoop batchSize unc 0) - 1
                                            then [BATCH_DELAY_MS] else []))
                                   [0..<length (sliceLoop batchSize unc 0)])\<rparr>,
                    Inr \<lparr>results = res0,
                         cached = (hits > 0 \<and> \<not> forceRefresh \<and> \<not> FORCE_CACHE_BYPASS E)\<rparr>))"
proof -
  have first: "retryLoop E index batch MAX_RETRIES (s, res) = (s', out) \<longrightarrow>
            (\<exists>j\<le>5. console s' = console s @ map (BatchError (index + 1)) [1..<1 + j] @
                        (if j = 5 then [BatchSkipped (index + 1)] else []) \<and>
                    timers s' = timers s @ replicate (if j = 5 then 4 else j) 1000 \<and>
                    (j = 5 \<longrightarrow> out = Inr res \<and> cache s' = cache s) \<and>
                    (j < 5 \<longrightarrow> (\<exists>vr. out = Inr (res @ vr))))"
  proof
    assume run: "retryLoop E index batch MAX_RETRIES (s, res) = (s', out)"
    then have g5: "retryLoop E index batch 5 (s, res) = (s', out)"
      by (simp only: MAX_RETRIES_def)
    have a5: "1 + 5 = MAX_RETRIES + 1"
      by (simp add: MAX_RETRIES_def)
    from retryLoop_returns [OF assms, of index batch MAX_RETRIES s res] run
    obtain res' where out: "out = Inr res'" by auto
    from retryLoop_general [OF g5 a5] obtain j where j: "j \<le> 5"
      and con0: "console s' = console s @ map (BatchError (index + 1)) [1..<1 + j] @
                     (if j = 5 \<and> 0 < (5::nat) then [BatchSkipped (index + 1)] else [])"
      and tim0: "timers s' = timers s @ replicate (if j = 5 then 5 - 1 else j) 1000"
      and ex: "j = 5 \<longrightarrow> out = Inr res \<and> cache s' = cache s"
      and ok0: "j < 5 \<longrightarrow> (\<exists>vr. out = Inr (res @ vr)) \<or> (\<exists>msg. out = Inl msg \<and> cache s' = cache s)"
      by blast
    have con: "console s' = console s @ map (BatchError (index + 1)) [1..<1 + j] @
                     (if j = 5 then [BatchSkipped (index + 1)] else [])"
      using con0 by (cases "j = 5") simp_all
    have tim: "timers s' = timers s @ replicate (if j = 5 then 4 else j) 1000"
      using tim0 by (cases "j = 5") simp_all
    have ok: "j < 5 \<longrightarrow> (\<exists>vr. out = Inr (res @ vr))"
      using ok0 out by auto
    from j con tim ex ok show "\<exists>j\<le>5. console s' = console s @ map (BatchError (index + 1)) [1..<1 + j] @
                        (if j = 5 then [BatchSkipped (index + 1)] else []) \<and>
                    timers s' = timers s @ replicate (if j = 5 then 4 else j) 1000 \<and>
                    (j = 5 \<longrightarrow> out = Inr res \<and> cache s' = cache s) \<and>
                    (j < 5 \<longrightarrow> (\<exists>vr. out = Inr (res @ vr)))"
      by (intro exI [of _ j] conjI)
  qed
  have second: "0 < batchSize \<longrightarrow>
            (\<exists>s2 r. fetchEquityDetailsInBatches E g symbols batchSize forceRefresh st = Some (s2, Inr r))"
    using fetch_returns_normally [OF assms] by blast
  have third: "0 < batchSize \<and> (\<forall>k symb. \<exists>v. getEquityDetails E k symb = SyncThrow v) \<and>
          (if \<not> forceRefresh \<and> \<not> FORCE_CACHE_BYPASS E
           then cacheLoop E (filter (\<lambda>symb. symb \<in> allSymbolsSet g \<and> trim symb \<noteq> []) symbols) (st, [], [], 0)
           else (st, [], filter (\<lambda>symb. symb \<in> allSymbolsSet g \<and> trim symb \<noteq> []) symbols, 0))
            = (s1, res0, unc, hits) \<longrightarrow>
            fetchEquityDetailsInBatches E g symbols batchSize forceRefresh st =
              Some (s1\<lparr>apiCalls := apiCalls s1 + 5 * length (sliceLoop batchSize unc 0),
                       console := console s1 @
                         concat (map (\<lambda>i. map (BatchError (i + 1)) [1..<6] @ [BatchSkipped (i + 1)])
                                   [0..<length (sliceLoop batchSize unc 0)]),
                       timers := timers s1 @
                         concat (map (\<lambda>i. replicate 4 1000 @
                                           (if i < length (sliceLoop batchSize unc 0) - 1
                                            then [BATCH_DELAY_MS] else []))
                                   [0..<length (sliceLoop batchSize unc 0)])\<rparr>,
                    Inr \<lparr>results = res0,
                         cached = (hits > 0 \<and> \<not> forceRefresh \<and> \<not> FORCE_CACHE_BYPASS E)\<rparr>)"
  proof (intro impI, elim conjE)
    assume pos: "0 < batchSize"
      and thr: "\<forall>k symb. \<exists>v. getEquityDetails E k symb = SyncThrow v"
      and part: "(if \<not> forceRefresh \<and> \<not> FORCE_CACHE_BYPASS E
           then cacheLoop E (filter (\<lambda>symb. symb \<in> allSymbolsSet g \<and> trim symb \<noteq> []) symbols) (st, [], [], 0)
           else (st, [], filter (\<lambda>symb. symb \<in> allSymbolsSet g \<and> trim symb \<noteq> []) symbols, 0))
            = (s1, res0, unc, hits)"
    from thr assms have all: "\<forall>k symb. \<exists>v. getEquityDetails E k symb = SyncThrow v \<and> \<not> nullish v"
      by blast
    have ne: "\<forall>b\<in>set (sliceLoop batchSize unc 0). b \<noteq> []"
      using sliceLoop_nonempty by blast
    note loop = batchLoop_all_throw [OF all ne, of "length (sliceLoop batchSize unc 0)" 0 s1 res0]
    show "fetchEquityDetailsInBatches E g symbols batchSize forceRefresh st =
              Some (s1\<lparr>apiCalls := apiCalls s1 + 5 * length (sliceLoop batchSize unc 0),
                       console := console s1 @
                         concat (map (\<lambda>i. map (BatchError (i + 1)) [1..<6] @ [BatchSkipped (i + 1)])
                                   [0..<length (sliceLoop batchSize unc 0)]),
                       timers := timers s1 @
                         concat (map (\<lambda>i. replicate 4 1000 @
                                           (if i < length (sliceLoop batchSize unc 0) - 1
                                            then [BATCH_DELAY_MS] else []))
                                   [0..<length (sliceLoop batchSize unc 0)])\<rparr>,
                    Inr \<lparr>results = res0,
                         cached = (hits > 0 \<and> \<not> forceRefresh \<and> \<not> FORCE_CACHE_BYPASS E)\<rparr>)"
      using pos by (simp add: fetch_unfold [OF part loop [simplified]])
  qed
  from first second third show ?thesis by (intro conjI)
qed

theorem batch_retry_witness:
  "(\<forall>k symb. getEquityDetails throwingEnv k symb = SyncThrow sampleError) \<and>
   \<not> nullish sampleError \<and>
   (\<exists>j\<le>5. console (fst (retryLoop throwingEnv 0 [''TCS''] MAX_RETRIES (freshSys, []))) =
              map (BatchError 1) [1..<1 + j] @ (if j = 5 then [BatchSkipped 1] else []) \<and>
            timers (fst (retryLoop throwingEnv 0 [''TCS''] MAX_RETRIES (freshSys, []))) =
              replicate (if j = 5 then 4 else j) 1000) \<and>
   (\<exists>s2 r. fetchEquityDetailsInBatches throwingEnv loadedRegistry [''TCS'', ''PFC''] 1 True freshSys
            = Some (s2, Inr r)) \<and>
   fetchEquityDetailsInBatches throwingEnv loadedRegistry [''TCS'', ''PFC''] 1 True freshSys =
     Some (freshSys\<lparr>apiCalls := 10,
                    console := [BatchError 1 1, BatchError 1 2, BatchError 1 3, BatchError 1 4,
                                BatchError 1 5, BatchSkipped 1,
                                BatchError 2 1, BatchError 2 2, BatchError 2 3, BatchError 2 4,
                                BatchError 2 5, BatchSkipped 2],
                    timers := [1000, 1000, 1000, 1000, 1000, 1000, 1000, 1000, 1000]\<rparr>,
           Inr \<lparr>results = [], cached = False\<rparr>)"
proof -
  have thr: "\<forall>k symb. getEquityDetails throwingEnv k symb = SyncThrow sampleError"
    by (simp add: throwingEnv_def throwingProvider_def)
  have nn: "\<not> nullish sampleError"
    by (simp add: sampleError_def)
  from thr nn have hyp: "\<forall>k symb v. getEquityDetails throwingEnv k symb = SyncThrow v \<longrightarrow> \<not> nullish v"
    by simp
  from thr have all: "\<forall>k symb. \<exists>v. getEquityDetails throwingEnv k symb = SyncThrow v"
    by simp
  have valid: "filter (\<lambda>symb. symb \<in> allSymbolsSet loadedRegistry \<and> trim symb \<noteq> []) [''TCS'', ''PFC'']
               = [''TCS'', ''PFC'']"
    by code_simp
  have slices: "sliceLoop 1 [''TCS'', ''PFC''] 0 = [[''TCS''], [''PFC'']]"
    by code_simp
  have part: "(if \<not> True \<and> \<not> FORCE_CACHE_BYPASS throwingEnv
           then cacheLoop throwingEnv
                  (filter (\<lambda>symb. symb \<in> allSymbolsSet loadedRegistry \<and> trim symb \<noteq> []) [''TCS'', ''PFC''])
                  (freshSys, [], [], 0)
           else (freshSys, [],
                 filter (\<lambda>symb. symb \<in> allSymbolsSet loadedRegistry \<and> trim symb \<noteq> []) [''TCS'', ''PFC''], 0))
            = (freshSys, [], [''TCS'', ''PFC''], 0)"
    by (simp only: valid) simp
  have run: "retryLoop throwingEnv 0 [''TCS''] MAX_RETRIES (freshSys, []) =
               (fst (retryLoop throwingEnv 0 [''TCS''] MAX_RETRIES (freshSys, [])),
                snd (retryLoop throwingEnv 0 [''TCS''] MAX_RETRIES (freshSys, [])))"
    by simp
  have five: "[Suc 0..<6] = [1, 2, 3, 4, 5::nat]"
    by (simp add: upt_rec)
  have two: "[0..<2] = [0, 1::nat]"
    by (simp add: upt_rec)
  have four: "replicate 4 (1000::nat) = [1000, 1000, 1000, 1000]"
    by (simp add: numeral_eq_Suc)
  note inst = batch_retry [OF hyp, where index = 0 and batch = "[''TCS'']" and s = freshSys
      and res = "[]" and s' = "fst (retryLoop throwingEnv 0 [''TCS''] MAX_RETRIES (freshSys, []))"
      and out = "snd (retryLoop throwingEnv 0 [''TCS''] MAX_RETRIES (freshSys, []))"
      and batchSize = 1 and g = loadedRegistry and symbols = "[''TCS'', ''PFC'']"
      and forceRefresh = True and st = freshSys and ?s1.0 = freshSys and res0 = "[]"
      and unc = "[''TCS'', ''PFC'']" and hits = 0]
  from inst [THEN conjunct1] run
  obtain j where j: "j \<le> 5"
    and c: "console (fst (retryLoop throwingEnv 0 [''TCS''] MAX_RETRIES (freshSys, []))) =
              console freshSys @ map (BatchError (0 + 1)) [1..<1 + j] @
                (if j = 5 then [BatchSkipped (0 + 1)] else [])"
    and t: "timers (fst (retryLoop throwingEnv 0 [''TCS''] MAX_RETRIES (freshSys, []))) =
              timers freshSys @ replicate (if j = 5 then 4 else j) 1000"
    by blast
  have a: "\<exists>j\<le>5. console (fst (retryLoop throwingEnv 0 [''TCS''] MAX_RETRIES (freshSys, []))) =
              map (BatchError 1) [1..<1 + j] @ (if j = 5 then [BatchSkipped 1] else []) \<and>
            timers (fst (retryLoop throwingEnv 0 [''TCS''] MAX_RETRIES (freshSys, []))) =
              replicate (if j = 5 then 4 else j) 1000"
    using j c t by (intro exI [of _ j]) (simp add: freshSys_def)
  from inst [THEN conjunct2, THEN conjunct1]
  have b: "\<exists>s2 r. fetchEquityDetailsInBatches throwingEnv loadedRegistry [''TCS'', ''PFC''] 1 True freshSys
            = Some (s2, Inr r)"
    by simp
  have prem: "0 < (1::nat) \<and> (\<forall>k symb. \<exists>v. getEquityDetails throwingEnv k symb = SyncThrow v) \<and>
          (if \<not> True \<and> \<not> FORCE_CACHE_BYPASS throwingEnv
           then cacheLoop throwingEnv
                  (filter (\<lambda>symb. symb \<in> allSymbolsSet loadedRegistry \<and> trim symb \<noteq> []) [''TCS'', ''PFC''])
                  (freshSys, [], [], 0)
           else (freshSys, [],
                 filter (\<lambda>symb. symb \<in> allSymbolsSet loadedRegistry \<and> trim symb \<noteq> []) [''TCS'', ''PFC''], 0))
            = (freshSys, [], [''TCS'', ''PFC''], 0)"
    using all part by (intro conjI) simp
  note raw = inst [THEN conjunct2, THEN conjunct2, THEN mp, OF prem, unfolded slices]
  have d: "fetchEquityDetailsInBatches throwingEnv loadedRegistry [''TCS'', ''PFC''] 1 True freshSys =
     Some (freshSys\<lparr>apiCalls := 10,
                    console := [BatchError 1 1, BatchError 1 2, BatchError 1 3, BatchError 1 4,
                                BatchError 1 5, BatchSkipped 1,
                                BatchError 2 1, BatchError 2 2, BatchError 2 3, BatchError 2 4,
                                BatchError 2 5, BatchSkipped 2],
                    timers := [1000, 1000, 1000, 1000, 1000, 1000, 1000, 1000, 1000]\<rparr>,
           Inr \<lparr>results = [], cached = False\<rparr>)"
    using raw by (simp add: five two four BATCH_DELAY_MS_def freshSys_def)
  from thr nn a b d show ?thesis by (intro conjI)
qed

text \<open>
  The claim as worded, five retries, fails: a batch whose every attempt throws is
  abandoned after five attempts, that is after four retries with four waits. For one
  batch of one symbol the provider is called five times, not six.
\<close>

theorem batch_retry_counterexample:
  "map_option snd (fetchEquityDetailsInBatches throwingEnv loadedRegistry [''TCS''] BATCH_SIZE True freshSys)
     = Some (Inr \<lparr>results = [], cached = False\<rparr>) \<and>
   map_option (apiCalls \<circ> fst)
     (fetchEquityDetailsInBatches throwingEnv loadedRegistry [''TCS''] BATCH_SIZE True freshSys) = Some 5 \<and>
   map_option (apiCalls \<circ> fst)
     (fetchEquityDetailsInBatches throwingEnv loadedRegistry [''TCS''] BATCH_SIZE True freshSys)
     \<noteq> Some (1 + MAX_RETRIES) \<and>
   map_option (timers \<circ> fst)
     (fetchEquityDetailsInBatches throwingEnv loadedRegistry [''TCS''] BATCH_SIZE True freshSys)
     = Some [1000, 1000, 1000, 1000] \<and>
   map_option (console \<circ> fst)
     (fetchEquityDetailsInBatches throwingEnv loadedRegistry [''TCS''] BATCH_SIZE True freshSys)
     = Some [BatchError 1 1, BatchError 1 2, BatchError 1 3, BatchError 1 4, BatchError 1 5,
             BatchSkipped 1]"
  by code_simp

text \<open>
  Claim C3, as the code has it. For every industry of the aggregation output, let its
  members be the results attributed to it, in the order of the results (a result counts
  once for each time the industry is listed for its symbol). There is at least one
  member and \<open>stockCount\<close> is their number. \<open>avgPChange\<close> is the text \<open>toFixed(2)\<close>
  gives for the mean in double arithmetic: the changes are added one by one in that
  order, each sum rounded to a double, and the total is divided by the count, rounded to
  a double. The text is the sign, the whole part, a point and two digits, and the number
  it writes is within half a hundredth of the magnitude of that double. The stocks are
  the members sorted by descending change, members with equal changes in their order,
  and \<open>topStock\<close> is the first of them. Every industry with a result has exactly one
  entry. For the quotes \<open>A\<close> with 2.0 and \<open>B\<close> with 4.0, both in \<open>Tech\<close>, the
  output is the one industry \<open>Tech\<close> with \<open>avgPChange\<close> \<open>3.00\<close> and top stock \<open>B\<close>.
\<close>

theorem industry_aggregation:
  "(\<forall>e \<in> set (aggregateIndustries s2i vr).
      (let members = concat (map (\<lambda>q. replicate
                        (count_list (case s2i (symbol q) of Some l \<Rightarrow> l | None \<Rightarrow> [''N/A''])
                           (industry e)) q) vr);
           mean = divDouble (foldl addDouble 0 (map (\<lambda>q. pChange (priceInfo q)) members))
                    (of_nat (length members))
       in members \<noteq> [] \<and> stockCount e = length members \<and>
          avgPChange e = Fixed (toFixed2 mean) \<and>
          toFixed2 mean =
            (if mean < 0 then ''-'' else []) @ decimal (hundredths \<bar>mean\<bar> div 100) @ ''.'' @
            [digitChar (hundredths \<bar>mean\<bar> div 10), digitChar (hundredths \<bar>mean\<bar>)] \<and>
          \<bar>of_nat (hundredths \<bar>mean\<bar>) / 100 - \<bar>mean\<bar>\<bar> \<le> 1 / 200 \<and>
          stocks e = sortDescending (\<lambda>q. pChange (priceInfo q)) members \<and>
          mset (stocks e) = mset members \<and>
          sorted_wrt (\<lambda>a b. pChange (priceInfo b) \<le> pChange (priceInfo a)) (stocks e) \<and>
          topStock e = Some (hd (stocks e)))) \<and>
   distinct (map industry (aggregateIndustries s2i vr)) \<and>
   industry ` set (aggregateIndustries s2i vr) =
     (\<Union>q\<in>set vr. set (case s2i (symbol q) of Some l \<Rightarrow> l | None \<Rightarrow> [''N/A''])) \<and>
   map (\<lambda>e. (industry e, avgPChange e, map_option symbol (topStock e)))
     (aggregateIndustries techIndex [sampleQuote ''A'' 2, sampleQuote ''B'' 4])
   = [(''Tech'', Fixed ''3.00'', Some ''B'')]"
proof (intro conjI ballI)
  fix e assume "e \<in> set (aggregateIndustries s2i vr)"
  from aggregateIndustries_entry [OF this] obtain k m where
    km: "(k, m) \<in> set (foldl (addStock s2i) [] vr)" and e: "e = toEntry (k, m)"
    by blast
  define members where "members = concat (map (\<lambda>q. replicate
                        (count_list (case s2i (symbol q) of Some l \<Rightarrow> l | None \<Rightarrow> [''N/A''])
                           (industry e)) q) vr)"
  define mean where "mean = divDouble (foldl addDouble 0 (map (\<lambda>q. pChange (priceInfo q)) members))
                    (of_nat (length members))"
  have ind: "industry e = k" by (simp add: e toEntry_def Let_def)
  note am = aggregate_members [OF km]
  from am have ms: "memberStocks m = members"
    unfolding members_def ind by (rule conjunct1)
  from am [THEN conjunct2] have inv:
    "totalPChange m = foldl addDouble 0 (map (\<lambda>q. pChange (priceInfo q)) (memberStocks m))"
    "count m = length (memberStocks m)" "memberStocks m \<noteq> []"
    by blast+
  note p = toEntry_props [OF inv, of k, folded e, unfolded ms, folded mean_def]
  note sp = sortDescending_props [of "\<lambda>q. pChange (priceInfo q)" members]
  from p have st: "stocks e = sortDescending (\<lambda>q. pChange (priceInfo q)) members" by blast
  have a: "members \<noteq> []" using inv(3) ms by simp
  have b: "stockCount e = length members" using p by blast
  have c: "avgPChange e = Fixed (toFixed2 mean)" using p by blast
  note d = toFixed2_digits [of mean]
  have f: "\<bar>of_nat (hundredths \<bar>mean\<bar>) / 100 - \<bar>mean\<bar>\<bar> \<le> 1 / 200"
    by (rule hundredths_close) simp
  have g: "mset (stocks e) = mset members" unfolding st using sp by blast
  have h: "sorted_wrt (\<lambda>a b. pChange (priceInfo b) \<le> pChange (priceInfo a)) (stocks e)"
    unfolding st using sp by blast
  have i: "topStock e = Some (hd (stocks e))" using p by blast
  from a b c d f st g h i
  have "members \<noteq> [] \<and> stockCount e = length members \<and>
          avgPChange e = Fixed (toFixed2 mean) \<and>
          toFixed2 mean =
            (if mean < 0 then ''-'' else []) @ decimal (hundredths \<bar>mean\<bar> div 100) @ ''.'' @
            [digitChar (hundredths \<bar>mean\<bar> div 10), digitChar (hundredths \<bar>mean\<bar>)] \<and>
          \<bar>of_nat (hundredths \<bar>mean\<bar>) / 100 - \<bar>mean\<bar>\<bar> \<le> 1 / 200 \<and>
          stocks e = sortDescending (\<lambda>q. pChange (priceInfo q)) members \<and>
          mset (stocks e) = mset members \<and>
          sorted_wrt (\<lambda>a b. pChange (priceInfo b) \<le> pChange (priceInfo a)) (stocks e) \<and>
          topStock e = Some (hd (stocks e))"
    by (intro conjI)
  then show "(let members = concat (map (\<lambda>q. replicate
                        (count_list (case s2i (symbol q) of Some l \<Rightarrow> l | None \<Rightarrow> [''N/A''])
                           (industry e)) q) vr);
           mean = divDouble (foldl addDouble 0 (map (\<lambda>q. pChange (priceInfo q)) members))
                    (of_nat (length members))
       in members \<noteq> [] \<and> stockCount e = length members \<and>
          avgPChange e = Fixed (toFixed2 mean) \<and>
          toFixed2 mean =
            (if mean < 0 then ''-'' else []) @ decimal (hundredths \<bar>mean\<bar> div 100) @ ''.'' @
            [digitChar (hundredths \<bar>mean\<bar> div 10), digitChar (hundredths \<bar>mean\<bar>)] \<and>
          \<bar>of_nat (hundredths \<bar>mean\<bar>) / 100 - \<bar>mean\<bar>\<bar> \<le> 1 / 200 \<and>
          stocks e = sortDescending (\<lambda>q. pChange (priceInfo q)) members \<and>
          mset (stocks e) = mset members \<and>
          sorted_wrt (\<lambda>a b. pChange (priceInfo b) \<le> pChange (priceInfo a)) (stocks e) \<and>
          topStock e = Some (hd (stocks e)))"
    unfolding Let_def members_def [symmetric] mean_def [symmetric] .
next
  show "distinct (map industry (aggregateIndustries s2i vr))"
    using aggregate_industries [of s2i vr] by (rule conjunct1)
next
  show "industry ` set (aggregateIndustries s2i vr) =
     (\<Union>q\<in>set vr. set (case s2i (symbol q) of Some l \<Rightarrow> l | None \<Rightarrow> [''N/A'']))"
    using aggregate_industries [of s2i vr] by (rule conjunct2)
next
  show "map (\<lambda>e. (industry e, avgPChange e, map_option symbol (topStock e)))
     (aggregateIndustries techIndex [sampleQuote ''A'' 2, sampleQuote ''B'' 4])
   = [(''Tech'', Fixed ''3.00'', Some ''B'')]"
    by (simp add: aggregate_example) (simp add: sampleQuote_def)
qed

theorem industry_aggregation_witness:
  "\<exists>e. e \<in> set (aggregateIndustries techIndex [sampleQuote ''A'' 2, sampleQuote ''B'' 4]) \<and>
       industry e = ''Tech'' \<and> stockCount e = 2 \<and>
       avgPChange e =
         Fixed (toFixed2 (divDouble (foldl addDouble 0 [2, 4]) (of_nat 2))) \<and>
       avgPChange e = Fixed ''3.00'' \<and>
       stocks e = [sampleQuote ''B'' 4, sampleQuote ''A'' 2] \<and>
       topStock e = Some (hd (stocks e)) \<and> topStock e = Some (sampleQuote ''B'' 4)"
proof -
  let ?vr = "[sampleQuote ''A'' 2, sampleQuote ''B'' 4]"
  let ?e = "\<lparr>industry = ''Tech'', avgPChange = Fixed ''3.00'', stockCount = 2,
             stocks = [sampleQuote ''B'' 4, sampleQuote ''A'' 2],
             topStock = Some (sampleQuote ''B'' 4)\<rparr>"
  have ev: "aggregateIndustries techIndex ?vr = [?e]"
    by (rule aggregate_example)
  then have mem: "?e \<in> set (aggregateIndustries techIndex ?vr)"
    by simp
  have members: "concat (map (\<lambda>q. replicate
                        (count_list (case techIndex (symbol q) of Some l \<Rightarrow> l | None \<Rightarrow> [''N/A''])
                           (industry ?e)) q) ?vr) = ?vr"
    by (simp add: techIndex_A techIndex_B sampleQuote_def)
  from industry_aggregation [of techIndex ?vr, THEN conjunct1, rule_format, OF mem]
  have "stockCount ?e = length ?vr \<and>
        avgPChange ?e =
          Fixed (toFixed2 (divDouble (foldl addDouble 0 (map (\<lambda>q. pChange (priceInfo q)) ?vr))
                             (of_nat (length ?vr)))) \<and>
        topStock ?e = Some (hd (stocks ?e))"
    unfolding Let_def members by blast
  then have "stockCount ?e = 2 \<and>
        avgPChange ?e = Fixed (toFixed2 (divDouble (foldl addDouble 0 [2, 4]) (of_nat 2))) \<and>
        topStock ?e = Some (hd (stocks ?e))"
    by (simp add: sampleQuote_def)
  with mem show ?thesis
    by (intro exI [of _ ?e]) simp
qed

text \<open>
  The claim as worded fails where doubles round. For the changes 1 and 1.01 (the double
  nearest to it) the mean of the two doubles is a little above 1.005 and rounds to 1.01,
  but their sum as a double is the one below 2.01, half of it lies below 1.005, and the
  code answers 1.00.
\<close>

theorem industry_aggregation_counterexample:
  "roundDouble 1 = 1 \<and> roundDouble nearest_1_01 = nearest_1_01 \<and>
   map avgPChange
     (aggregateIndustries techIndex [sampleQuote ''A'' 1, sampleQuote ''B'' nearest_1_01])
     = [Fixed ''1.00''] \<and>
   toFixed2 ((1 + nearest_1_01) / 2) = ''1.01''"
  using roundDouble_1 roundDouble_nearest_1_01 aggregate_1_01 toFixed2_exact_mean
  by (intro conjI)

section \<open>Gainers and losers\<close>

lemma map_sort_key: "map f (sort_key f xs) = sort (map f xs)"
proof -
  have "mset (map f (sort_key f xs)) = mset (map f xs)" by simp
  moreover have "sorted (map f (sort_key f xs))" by (rule sorted_sort_key)
  ultimately show ?thesis by (rule properties_for_sort [symmetric])
qed

lemma sort_cong_mset: "mset xs = mset ys \<Longrightarrow> sort xs = sort ys"
proof -
  assume "mset xs = mset ys"
  then have "mset (sort ys) = mset xs" by simp
  moreover have "sorted (sort ys)" by simp
  ultimately show "sort xs = sort ys" by (rule properties_for_sort)
qed

lemma map_uminus_sort:
  fixes ys :: "rat list"
  shows "map uminus (sort (map uminus ys)) = rev (sort ys)"
proof -
  let ?zs = "map uminus (sort (map uminus ys))"
  have m: "mset (rev ?zs) = mset ys"
    by (simp add: multiset.map_comp comp_def)
  have "sorted (sort (map uminus ys))" by simp
  then have "sorted_wrt (\<lambda>a b. - b \<le> - a) (sort (map uminus ys))" by simp
  then have "sorted_wrt (\<lambda>a b. b \<le> a) ?zs" by (simp add: sorted_wrt_map)
  then have "sorted (rev ?zs)" by (simp add: sorted_wrt_rev)
  with m have "sort ys = rev ?zs" by (rule properties_for_sort)
  then show ?thesis by simp
qed

lemma losersOf_changes:
  "map (\<lambda>q. pChange (priceInfo q)) (losersOf vr) =
   take 10 (sort (filter (\<lambda>x. x < 0) (map (\<lambda>q. pChange (priceInfo q)) vr)))"
proof -
  let ?pc = "\<lambda>q. pChange (priceInfo q)"
  let ?neg = "\<lambda>q. ?pc q < 0"
  let ?d = "sortDescending ?pc vr"
  have "mset (map ?pc (filter ?neg ?d)) = mset (map ?pc (filter ?neg vr))"
    by (simp add: sortDescending_def)
  then have s: "sort (map ?pc (filter ?neg ?d)) = sort (map ?pc (filter ?neg vr))"
    by (rule sort_cong_mset)
  have f: "map ?pc (filter ?neg vr) = filter (\<lambda>x. x < 0) (map ?pc vr)"
    by (simp add: filter_map comp_def)
  have "map ?pc (losersOf vr) = map ?pc (take 10 (sort_key ?pc (filter ?neg ?d)))"
    by (simp only: losersOf_def sortAscending_def)
  also have "\<dots> = take 10 (map ?pc (sort_key ?pc (filter ?neg ?d)))"
    by (simp only: take_map)
  also have "\<dots> = take 10 (sort (map ?pc (filter ?neg ?d)))"
    by (simp only: map_sort_key)
  also have "\<dots> = take 10 (sort (filter (\<lambda>x. x < 0) (map ?pc vr)))"
    by (simp only: s f)
  finally show ?thesis .
qed

lemma gainersOf_changes:
  "map (\<lambda>q. pChange (priceInfo q)) (gainersOf vr) =
   take 10 (rev (sort (map (\<lambda>q. pChange (priceInfo q)) vr)))"
proof -
  let ?pc = "\<lambda>q. pChange (priceInfo q)"
  let ?g = "\<lambda>q. - ?pc q"
  have g: "map ?g vr = map uminus (map ?pc vr)"
    by (simp add: comp_def)
  have "map ?pc (sort_key ?g vr) = map uminus (map ?g (sort_key ?g vr))"
    by (simp add: comp_def)
  also have "\<dots> = map uminus (sort (map ?g vr))"
    by (simp only: map_sort_key)
  also have "\<dots> = map uminus (sort (map uminus (map ?pc vr)))"
    by (simp only: g)
  also have "\<dots> = rev (sort (map ?pc vr))"
    by (rule map_uminus_sort)
  finally have d: "map ?pc (sort_key ?g vr) = rev (sort (map ?pc vr))" .
  have "map ?pc (gainersOf vr) = map ?pc (take 10 (sort_key ?g vr))"
    by (simp only: gainersOf_def sortDescending_def)
  also have "\<dots> = take 10 (map ?pc (sort_key ?g vr))"
    by (simp only: take_map)
  finally show ?thesis by (simp only: d)
qed

lemma losersOf_negative:
  "q \<in> set (losersOf vr) \<Longrightarrow> pChange (priceInfo q) < 0 \<and> q \<in> set vr"
proof -
  assume "q \<in> set (losersOf vr)"
  then have "q \<in> set (sortAscending (\<lambda>q. pChange (priceInfo q))
                (filter (\<lambda>q. pChange (priceInfo q) < 0)
                   (sortDescending (\<lambda>q. pChange (priceInfo q)) vr)))"
    unfolding losersOf_def by (rule in_set_takeD)
  then show ?thesis by (simp add: sortAscending_def sortDescending_def)
qed

lemma marketData_ok:
  assumes "marketDataHandler E g refresh s = Some (s', resp)" and "status resp = 200"
  shows "\<exists>s1 r b. fetchEquityDetailsInBatches E g (filterBoolean (map rowSymbol (nifty500Data g)))
                   BATCH_SIZE (refresh = Some ''true'') s = Some (s1, Inr r) \<and>
                 body resp = Market b \<and> gainers b = gainersOf (results r) \<and>
                 losers b = losersOf (results r)"
proof -
  let ?symbols = "filterBoolean (map rowSymbol (nifty500Data g))"
  let ?fetch = "fetchEquityDetailsInBatches E g ?symbols BATCH_SIZE (refresh = Some ''true'') s"
  have guard: "?symbols \<noteq> []"
  proof
    assume "?symbols = []"
    with assms(1) have "resp = \<lparr>status = 500, body = Error ''No symbols loaded from NIFTY500.xlsx''\<rparr>"
      by (simp add: marketDataHandler_def Let_def SKIP_NIFTY500_VALIDATION_def)
    with assms(2) show False by simp
  qed
  show ?thesis
  proof (cases ?fetch)
    case None
    with guard assms(1) show ?thesis
      by (simp add: marketDataHandler_def Let_def SKIP_NIFTY500_VALIDATION_def)
  next
    case (Some p)
    obtain s1 out where p: "p = (s1, out)" by (cases p)
    show ?thesis
    proof (cases out)
      case (Inl msg)
      with guard Some p assms(1)
      have "resp = \<lparr>status = 500, body = Error (''Failed to fetch market data: '' @ msg)\<rparr>"
        by (simp add: marketDataHandler_def Let_def SKIP_NIFTY500_VALIDATION_def)
      with assms(2) show ?thesis by simp
    next
      case (Inr r)
      show ?thesis
      proof (cases "results r = []")
        case True
        with guard Some p Inr assms(1)
        have "resp = \<lparr>status = 500, body = Error ''No valid market data retrieved''\<rparr>"
          by (simp add: marketDataHandler_def Let_def SKIP_NIFTY500_VALIDATION_def)
        with assms(2) show ?thesis by simp
      next
        case False
        let ?b = "\<lparr>gainers = gainersOf (results r), losers = losersOf (results r),
                   marketCached = cached r, marketTimestamp = clock E (nowReads s1)\<rparr>"
        from False guard Some p Inr assms(1)
        have "resp = \<lparr>status = 200, body = Market ?b\<rparr>"
          by (simp add: marketDataHandler_def Let_def SKIP_NIFTY500_VALIDATION_def)
        then have "body resp = Market ?b \<and> gainers ?b = gainersOf (results r) \<and>
                   losers ?b = losersOf (results r)"
          by simp
        with Some p Inr show ?thesis
          by (intro exI [of _ s1] exI [of _ r] exI [of _ ?b]) simp
      qed
    qed
  qed
qed

text \<open>
  Claim C4. The losers are quotes of the results with a strictly negative change; their
  changes are the negative changes of the results in ascending order, cut after the
  tenth. The changes of the gainers are the changes of the results in descending order,
  cut after the tenth. Whenever the handler of \<open>GET /api/market-data\<close> answers with
  status 200, its body carries these two lists for the results of the fetch. For the
  changes -5, -1, -8 and +2 the first two losers are -8 and -5 and the quote with +2 is
  not a loser.
\<close>

theorem market_summary:
  "(\<forall>q \<in> set (losersOf vr). pChange (priceInfo q) < 0 \<and> q \<in> set vr) \<and>
   map (\<lambda>q. pChange (priceInfo q)) (losersOf vr) =
     take 10 (sort (filter (\<lambda>x. x < 0) (map (\<lambda>q. pChange (priceInfo q)) vr))) \<and>
   sorted (map (\<lambda>q. pChange (priceInfo q)) (losersOf vr)) \<and>
   length (losersOf vr) \<le> 10 \<and>
   map (\<lambda>q. pChange (priceInfo q)) (gainersOf vr) =
     take 10 (rev (sort (map (\<lambda>q. pChange (priceInfo q)) vr))) \<and>
   set (gainersOf vr) \<subseteq> set vr \<and> length (gainersOf vr) = min 10 (length vr) \<and>
   (marketDataHandler E g refresh s = Some (s', resp) \<and> status resp = 200 \<longrightarrow>
      (\<exists>s1 r b. fetchEquityDetailsInBatches E g (filterBoolean (map rowSymbol (nifty500Data g)))
                   BATCH_SIZE (refresh = Some ''true'') s = Some (s1, Inr r) \<and>
                 body resp = Market b \<and> gainers b = gainersOf (results r) \<and>
                 losers b = losersOf (results r))) \<and>
   take 2 (map (\<lambda>q. pChange (priceInfo q))
             (losersOf [sampleQuote ''P'' (- 5), sampleQuote ''Q'' (- 1),
                        sampleQuote ''R'' (- 8), sampleQuote ''S'' 2])) = [- 8, - 5] \<and>
   sampleQuote ''S'' 2 \<notin> set (losersOf [sampleQuote ''P'' (- 5), sampleQuote ''Q'' (- 1),
                                         sampleQuote ''R'' (- 8), sampleQuote ''S'' 2])"
proof -
  let ?pc = "\<lambda>q. pChange (priceInfo q)"
  have a: "\<forall>q \<in> set (losersOf vr). ?pc q < 0 \<and> q \<in> set vr"
    by (intro ballI) (rule losersOf_negative)
  note b = losersOf_changes [of vr]
  have c: "sorted (map ?pc (losersOf vr))"
    unfolding b by (simp add: sorted_wrt_take)
  have d: "length (losersOf vr) \<le> 10" by (simp add: losersOf_def)
  note e = gainersOf_changes [of vr]
  have f: "set (gainersOf vr) \<subseteq> set vr"
    using set_take_subset [of 10 "sortDescending ?pc vr"]
    by (simp add: gainersOf_def sortDescending_def)
  have h: "length (gainersOf vr) = min 10 (length vr)"
    by (simp add: gainersOf_def sortDescending_def min.commute)
  have i: "marketDataHandler E g refresh s = Some (s', resp) \<and> status resp = 200 \<longrightarrow>
      (\<exists>s1 r b. fetchEquityDetailsInBatches E g (filterBoolean (map rowSymbol (nifty500Data g)))
                   BATCH_SIZE (refresh = Some ''true'') s = Some (s1, Inr r) \<and>
                 body resp = Market b \<and> gainers b = gainersOf (results r) \<and>
                 losers b = losersOf (results r))"
  proof
    assume "marketDataHandler E g refresh s = Some (s', resp) \<and> status resp = 200"
    then have "marketDataHandler E g refresh s = Some (s', resp)" and "status resp = 200"
      by simp_all
    then show "\<exists>s1 r b. fetchEquityDetailsInBatches E g (filterBoolean (map rowSymbol (nifty500Data g)))
                   BATCH_SIZE (refresh = Some ''true'') s = Some (s1, Inr r) \<and>
                 body resp = Market b \<and> gainers b = gainersOf (results r) \<and>
                 losers b = losersOf (results r)"
      by (rule marketData_ok)
  qed
  have j: "take 2 (map ?pc
             (losersOf [sampleQuote ''P'' (- 5), sampleQuote ''Q'' (- 1),
                        sampleQuote ''R'' (- 8), sampleQuote ''S'' 2])) = [- 8, - 5]"
    by (simp add: losersOf_def sortAscending_def sortDescending_def sampleQuote_def)
  have k: "sampleQuote ''S'' 2 \<notin> set (losersOf [sampleQuote ''P'' (- 5), sampleQuote ''Q'' (- 1),
                                         sampleQuote ''R'' (- 8), sampleQuote ''S'' 2])"
  proof
    assume "sampleQuote ''S'' 2 \<in> set (losersOf [sampleQuote ''P'' (- 5), sampleQuote ''Q'' (- 1),
                                         sampleQuote ''R'' (- 8), sampleQuote ''S'' 2])"
    then have "?pc (sampleQuote ''S'' 2) < 0" by (rule losersOf_negative [THEN conjunct1])
    then show False by (simp add: sampleQuote_def)
  qed
  from a b c d e f h i j k show ?thesis by (intro conjI)
qed


theorem market_summary_witness:
  "(\<exists>s' resp s1 r b.
      marketDataHandler mixedEnv loadedRegistry None freshSys = Some (s', resp) \<and>
      status resp = 200 \<and>
      fetchEquityDetailsInBatches mixedEnv loadedRegistry
        (filterBoolean (map rowSymbol (nifty500Data loadedRegistry)))
        BATCH_SIZE (None = Some ''true'') freshSys = Some (s1, Inr r) \<and>
      body resp = Market b \<and> gainers b = gainersOf (results r) \<and>
      losers b = losersOf (results r)) \<and>
   sampleQuote ''R'' (- 8) \<in> set (losersOf [sampleQuote ''P'' (- 5), sampleQuote ''Q'' (- 1),
                                            sampleQuote ''R'' (- 8), sampleQuote ''S'' 2]) \<and>
   pChange (priceInfo (sampleQuote ''R'' (- 8))) < 0"
proof -
  let ?ex = "[sampleQuote ''P'' (- 5), sampleQuote ''Q'' (- 1),
              sampleQuote ''R'' (- 8), sampleQuote ''S'' 2]"
  note inst = market_summary [of ?ex mixedEnv loadedRegistry None freshSys]
  have "map_option (\<lambda>p. status (snd p)) (marketDataHandler mixedEnv loadedRegistry None freshSys)
        = Some 200"
    by code_simp
  then obtain s' resp where
    run: "marketDataHandler mixedEnv loadedRegistry None freshSys = Some (s', resp)"
    and ok: "status resp = 200"
    by auto
  from inst [of s' resp] run ok obtain s1 r b where
    "fetchEquityDetailsInBatches mixedEnv loadedRegistry
        (filterBoolean (map rowSymbol (nifty500Data loadedRegistry)))
        BATCH_SIZE (None = Some ''true'') freshSys = Some (s1, Inr r) \<and>
      body resp = Market b \<and> gainers b = gainersOf (results r) \<and>
      losers b = losersOf (results r)"
    by blast
  with run ok have first: "\<exists>s' resp s1 r b.
      marketDataHandler mixedEnv loadedRegistry None freshSys = Some (s', resp) \<and>
      status resp = 200 \<and>
      fetchEquityDetailsInBatches mixedEnv loadedRegistry
        (filterBoolean (map rowSymbol (nifty500Data loadedRegistry)))
        BATCH_SIZE (None = Some ''true'') freshSys = Some (s1, Inr r) \<and>
      body resp = Market b \<and> gainers b = gainersOf (results r) \<and>
      losers b = losersOf (results r)"
    by (intro exI [of _ s'] exI [of _ resp] exI [of _ s1] exI [of _ r] exI [of _ b]) simp
  have "losersOf ?ex = [sampleQuote ''R'' (- 8), sampleQuote ''P'' (- 5), sampleQuote ''Q'' (- 1)]"
    by (simp add: losersOf_def sortAscending_def sortDescending_def sampleQuote_def)
  then have mem: "sampleQuote ''R'' (- 8) \<in> set (losersOf ?ex)" by simp
  from inst [of s' resp] have all: "\<forall>q \<in> set (losersOf ?ex). pChange (priceInfo q) < 0 \<and> q \<in> set ?ex"
    by (rule conjunct1)
  from bspec [OF all mem] have neg: "pChange (priceInfo (sampleQuote ''R'' (- 8))) < 0"
    by (rule conjunct1)
  from first mem neg show ?thesis by (intro conjI)
qed

section \<open>Empty results\<close>

text \<open>
  Claim C7. When the fetch for \<open>GET /api/market-data\<close> returns no quote, the handler
  answers with status 500 and an error body (the registry-empty message when there was
  no symbol to fetch, the no-data message otherwise). When the fetch for
  \<open>GET /api/industry-data\<close> returns no quote and the pass over the cache finds none
  either, the handler answers with status 200, an empty list of industries and a
  warning. Both hold for every provider, registry, query and state.
\<close>

theorem empty_result_asymmetry:
  "(fetchEquityDetailsInBatches E g (filterBoolean (map rowSymbol (nifty500Data g)))
      BATCH_SIZE (refresh = Some ''true'') s = Some (s1, Inr r) \<and> results r = [] \<longrightarrow>
      marketDataHandler E g refresh s =
        Some (if filterBoolean (map rowSymbol (nifty500Data g)) = [] then s else s1,
              \<lparr>status = 500,
               body = Error (if filterBoolean (map rowSymbol (nifty500Data g)) = []
                             then ''No symbols loaded from NIFTY500.xlsx''
                             else ''No valid market data retrieved'')\<rparr>)) \<and>
   (indexIndustries (industryData g) ([], Map.empty) = (allSymbols, s2i) \<and>
    fetchEquityDetailsInBatches E g allSymbols BATCH_SIZE (refresh = Some ''true'') s = Some (t1, Inr r') \<and>
    results r' = [] \<and> cacheOnlyLoop E allSymbols (t1, []) = (t2, []) \<longrightarrow>
      (\<exists>s' b. industryDataHandler E g refresh s = Some (s', \<lparr>status = 200, body = Industry b\<rparr>) \<and>
              industries b = [] \<and>
              warning b = Some (if industryData g = [] then ''No industry data available''
                                else ''No valid industry data retrieved'')))"
proof (intro conjI impI)
  assume "fetchEquityDetailsInBatches E g (filterBoolean (map rowSymbol (nifty500Data g)))
      BATCH_SIZE (refresh = Some ''true'') s = Some (s1, Inr r) \<and> results r = []"
  then have f: "fetchEquityDetailsInBatches E g (filterBoolean (map rowSymbol (nifty500Data g)))
      BATCH_SIZE (refresh = Some ''true'') s = Some (s1, Inr r)" and e: "results r = []"
    by simp_all
  show "marketDataHandler E g refresh s =
        Some (if filterBoolean (map rowSymbol (nifty500Data g)) = [] then s else s1,
              \<lparr>status = 500,
               body = Error (if filterBoolean (map rowSymbol (nifty500Data g)) = []
                             then ''No symbols loaded from NIFTY500.xlsx''
                             else ''No valid market data retrieved'')\<rparr>)"
  proof (cases "filterBoolean (map rowSymbol (nifty500Data g)) = []")
    case True
    from marketData_no_symbols [OF True, of E refresh s] True show ?thesis by simp
  next
    case False
    from marketData_no_quotes [OF False f e] False show ?thesis by simp
  qed
next
  assume h: "indexIndustries (industryData g) ([], Map.empty) = (allSymbols, s2i) \<and>
    fetchEquityDetailsInBatches E g allSymbols BATCH_SIZE (refresh = Some ''true'') s = Some (t1, Inr r') \<and>
    results r' = [] \<and> cacheOnlyLoop E allSymbols (t1, []) = (t2, [])"
  show "\<exists>s' b. industryDataHandler E g refresh s = Some (s', \<lparr>status = 200, body = Industry b\<rparr>) \<and>
              industries b = [] \<and>
              warning b = Some (if industryData g = [] then ''No industry data available''
                                else ''No valid industry data retrieved'')"
  proof (cases "industryData g = []")
    case True
    let ?b = "\<lparr>industries = [], industryCached = False,
                industryTimestamp = clock E (nowReads s),
                warning = Some ''No industry data available''\<rparr>"
    from industryData_empty_index [OF True, of E refresh s] True
    have "industryDataHandler E g refresh s =
            Some (s\<lparr>nowReads := Suc (nowReads s)\<rparr>, \<lparr>status = 200, body = Industry ?b\<rparr>) \<and>
          industries ?b = [] \<and>
          warning ?b = Some (if industryData g = [] then ''No industry data available''
                             else ''No valid industry data retrieved'')"
      by simp
    then show ?thesis by (intro exI [of _ "s\<lparr>nowReads := Suc (nowReads s)\<rparr>"] exI [of _ ?b])
  next
    case False
    let ?b = "\<lparr>industries = [], industryCached = False,
                industryTimestamp = clock E (nowReads t2),
                warning = Some ''No valid industry data retrieved''\<rparr>"
    from h have ix: "indexIndustries (industryData g) ([], Map.empty) = (allSymbols, s2i)"
      and f: "fetchEquityDetailsInBatches E g allSymbols BATCH_SIZE (refresh = Some ''true'') s = Some (t1, Inr r')"
      and e: "results r' = []" and c: "cacheOnlyLoop E allSymbols (t1, []) = (t2, [])"
      by simp_all
    from industryData_second_pass [OF False ix f e c] False
    have "industryDataHandler E g refresh s =
            Some (t2\<lparr>nowReads := Suc (nowReads t2)\<rparr>, \<lparr>status = 200, body = Industry ?b\<rparr>) \<and>
          industries ?b = [] \<and>
          warning ?b = Some (if industryData g = [] then ''No industry data available''
                             else ''No valid industry data retrieved'')"
      by simp
    then show ?thesis by (intro exI [of _ "t2\<lparr>nowReads := Suc (nowReads t2)\<rparr>"] exI [of _ ?b])
  qed
qed

theorem empty_result_asymmetry_witness:
  "map_option snd (marketDataHandler rejectingEnv loadedRegistry None freshSys) =
     Some \<lparr>status = 500, body = Error ''No valid market data retrieved''\<rparr> \<and>
   (\<exists>s' b. industryDataHandler rejectingEnv loadedRegistry None freshSys =
       Some (s', \<lparr>status = 200, body = Industry b\<rparr>) \<and>
       industries b = [] \<and> warning b = Some ''No valid industry data retrieved'')"
proof -
  let ?E = rejectingEnv and ?g = loadedRegistry
  let ?symbols = "filterBoolean (map rowSymbol (nifty500Data ?g))"
  obtain allSymbols s2i where ix: "indexIndustries (industryData ?g) ([], Map.empty) = (allSymbols, s2i)"
    using prod.exhaust by blast
  have nn: "\<forall>k symb v. getEquityDetails ?E k symb = SyncThrow v \<longrightarrow> \<not> nullish v"
    by (simp add: rejectingEnv_def rejectingProvider_def)
  from fetch_returns_normally [OF nn BATCH_SIZE_pos] obtain s1 r where
    f1: "fetchEquityDetailsInBatches ?E ?g ?symbols BATCH_SIZE (None = Some ''true'') freshSys = Some (s1, Inr r)"
    by blast
  from fetch_returns_normally [OF nn BATCH_SIZE_pos] obtain t1 r' where
    f2: "fetchEquityDetailsInBatches ?E ?g allSymbols BATCH_SIZE (None = Some ''true'') freshSys
           = Some (t1, Inr r')"
    by blast
  obtain t2 cr where c: "cacheOnlyLoop ?E allSymbols (t1, []) = (t2, cr)"
    using prod.exhaust by blast
  have "quotesOf (fetchEquityDetailsInBatches ?E ?g ?symbols BATCH_SIZE (None = Some ''true'') freshSys)
          = Some []"
    by code_simp
  with f1 have e1: "results r = []" by (simp add: quotesOf_def)
  have "(case fetchEquityDetailsInBatches ?E ?g
                (fst (indexIndustries (industryData ?g) ([], Map.empty)))
                BATCH_SIZE (None = Some ''true'') freshSys of
           None \<Rightarrow> None
         | Some (t1, Inl msg) \<Rightarrow> None
         | Some (t1, Inr r') \<Rightarrow>
             Some (results r',
                   snd (cacheOnlyLoop ?E (fst (indexIndustries (industryData ?g) ([], Map.empty)))
                          (t1, [])))) = Some ([], [])"
    by code_simp
  with ix f2 c have e2: "results r' = []" and cr: "cr = []" by simp_all
  have ne: "?symbols \<noteq> []" by code_simp
  have ine: "industryData ?g \<noteq> []" by (simp add: loadedRegistry_def)
  note inst = empty_result_asymmetry [of ?E ?g None freshSys s1 r allSymbols s2i t1 r' t2]
  from inst [THEN conjunct1] f1 e1 ne
  have "marketDataHandler ?E ?g None freshSys =
          Some (s1, \<lparr>status = 500, body = Error ''No valid market data retrieved''\<rparr>)"
    by simp
  then have first: "map_option snd (marketDataHandler ?E ?g None freshSys) =
     Some \<lparr>status = 500, body = Error ''No valid market data retrieved''\<rparr>"
    by simp
  from inst [THEN conjunct2] ix f2 e2 c cr ine
  have second: "\<exists>s' b. industryDataHandler ?E ?g None freshSys =
       Some (s', \<lparr>status = 200, body = Industry b\<rparr>) \<and>
       industries b = [] \<and> warning b = Some ''No valid industry data retrieved''"
    by simp
  from first second show ?thesis by (rule conjI)
qed

section \<open>The endpoints after a failed read of the spreadsheet\<close>

lemma startServer_fallback: "startServer (Inl err) = Listening fallbackRegistry"
  by (auto simp: startServer_def preloadExcelData_def preloadTry_def useDefault_def
        initialRegistry_def DEFAULT_INDUSTRY_DATA_def fallbackRegistry_def)

lemma fallback_index:
  "fst (indexIndustries DEFAULT_INDUSTRY_DATA ([], Map.empty)) =
     [''TIMKEN'', ''PAYTM'', ''POLICYBZR'', ''PNBHOUSING'', ''POONAWALLA'', ''RELIANCE'',
      ''TCS'', ''PFC'', ''PEL'']"
  by (simp add: DEFAULT_INDUSTRY_DATA_def MAX_SYMBOLS_PER_INDUSTRY_def)

text \<open>
  Claim C9, as the code has it. After a failed read of the spreadsheet the server
  listens with the built-in mapping as its index of industries and the symbols of that
  mapping as \<open>allSymbolsSet\<close>, but with no spreadsheet row. \<open>GET /api/market-data\<close>
  takes its symbols from the rows, so it answers with the registry-empty error, status
  500, for every provider, query and state. \<open>GET /api/industry-data\<close> works on the
  nine symbols of the built-in mapping: it fetches them and, when the fetch returns
  quotes, answers 200 with their aggregation over the built-in industries.
\<close>

theorem fallback_endpoints:
  "\<exists>g. startServer (Inl err) = Listening g \<and> nifty500Data g = [] \<and>
        industryData g = DEFAULT_INDUSTRY_DATA \<and>
        allSymbolsSet g = set (concat (map snd DEFAULT_INDUSTRY_DATA)) \<and>
        marketDataHandler E g refresh s =
          Some (s, \<lparr>status = 500, body = Error ''No symbols loaded from NIFTY500.xlsx''\<rparr>) \<and>
        fst (indexIndustries (industryData g) ([], Map.empty)) =
          [''TIMKEN'', ''PAYTM'', ''POLICYBZR'', ''PNBHOUSING'', ''POONAWALLA'', ''RELIANCE'',
           ''TCS'', ''PFC'', ''PEL''] \<and>
        (\<forall>s1 r. fetchEquityDetailsInBatches E g
                   [''TIMKEN'', ''PAYTM'', ''POLICYBZR'', ''PNBHOUSING'', ''POONAWALLA'', ''RELIANCE'',
                    ''TCS'', ''PFC'', ''PEL'']
                   BATCH_SIZE (refresh = Some ''true'') s = Some (s1, Inr r) \<and> results r \<noteq> [] \<longrightarrow>
           industryDataHandler E g refresh s =
             Some (s1\<lparr>nowReads := Suc (nowReads s1)\<rparr>,
                   \<lparr>status = 200,
                    body = Industry
                      \<lparr>industries =
                         aggregateIndustries (snd (indexIndustries DEFAULT_INDUSTRY_DATA ([], Map.empty)))
                           (results r),
                       industryCached = cached r,
                       industryTimestamp = clock E (nowReads s1),
                       warning = None\<rparr>\<rparr>))"
proof -
  let ?g = fallbackRegistry
  let ?nine = "[''TIMKEN'', ''PAYTM'', ''POLICYBZR'', ''PNBHOUSING'', ''POONAWALLA'', ''RELIANCE'',
                ''TCS'', ''PFC'', ''PEL'']"
  have a: "startServer (Inl err) = Listening ?g" by (rule startServer_fallback)
  have b: "nifty500Data ?g = []" by (simp add: fallbackRegistry_def)
  have c: "industryData ?g = DEFAULT_INDUSTRY_DATA" by (simp add: fallbackRegistry_def)
  have d: "allSymbolsSet ?g = set (concat (map snd DEFAULT_INDUSTRY_DATA))"
    by (auto simp: fallbackRegistry_def DEFAULT_INDUSTRY_DATA_def)
  have "filterBoolean (map rowSymbol (nifty500Data ?g)) = []"
    by (simp add: b filterBoolean_def)
  from marketData_no_symbols [OF this]
  have e: "marketDataHandler E ?g refresh s =
          Some (s, \<lparr>status = 500, body = Error ''No symbols loaded from NIFTY500.xlsx''\<rparr>)" .
  have f: "fst (indexIndustries (industryData ?g) ([], Map.empty)) = ?nine"
    unfolding c by (rule fallback_index)
  have ne: "industryData ?g \<noteq> []"
    by (simp add: c DEFAULT_INDUSTRY_DATA_def)
  have ix: "indexIndustries (industryData ?g) ([], Map.empty) =
              (?nine, snd (indexIndustries DEFAULT_INDUSTRY_DATA ([], Map.empty)))"
    using f by (simp add: c prod_eq_iff)
  have h: "\<forall>s1 r. fetchEquityDetailsInBatches E ?g ?nine
                   BATCH_SIZE (refresh = Some ''true'') s = Some (s1, Inr r) \<and> results r \<noteq> [] \<longrightarrow>
           industryDataHandler E ?g refresh s =
             Some (s1\<lparr>nowReads := Suc (nowReads s1)\<rparr>,
                   \<lparr>status = 200,
                    body = Industry
                      \<lparr>industries =
                         aggregateIndustries (snd (indexIndustries DEFAULT_INDUSTRY_DATA ([], Map.empty)))
                           (results r),
                       industryCached = cached r,
                       industryTimestamp = clock E (nowReads s1),
                       warning = None\<rparr>\<rparr>)"
  proof (intro allI impI, elim conjE)
    fix s1 r
    assume "fetchEquityDetailsInBatches E ?g ?nine BATCH_SIZE (refresh = Some ''true'') s = Some (s1, Inr r)"
      and "results r \<noteq> []"
    with ne ix show "industryDataHandler E ?g refresh s =
             Some (s1\<lparr>nowReads := Suc (nowReads s1)\<rparr>,
                   \<lparr>status = 200,
                    body = Industry
                      \<lparr>industries =
                         aggregateIndustries (snd (indexIndustries DEFAULT_INDUSTRY_DATA ([], Map.empty)))
                           (results r),
                       industryCached = cached r,
                       industryTimestamp = clock E (nowReads s1),
                       warning = None\<rparr>\<rparr>)"
      by (rule industryData_fetched)
  qed
  from a b c d e f h show ?thesis by (intro exI [of _ ?g] conjI)
qed

theorem fallback_endpoints_witness:
  "marketDataHandler mixedEnv fallbackRegistry None freshSys =
     Some (freshSys, \<lparr>status = 500, body = Error ''No symbols loaded from NIFTY500.xlsx''\<rparr>) \<and>
   (\<exists>s1 r. fetchEquityDetailsInBatches mixedEnv fallbackRegistry
              [''TIMKEN'', ''PAYTM'', ''POLICYBZR'', ''PNBHOUSING'', ''POONAWALLA'', ''RELIANCE'',
               ''TCS'', ''PFC'', ''PEL'']
              BATCH_SIZE False freshSys = Some (s1, Inr r) \<and>
      results r = [toStock (''TCS'', samplePayload 2 3500 ''Tata Consultancy Services'')] \<and>
      industryDataHandler mixedEnv fallbackRegistry None freshSys =
        Some (s1\<lparr>nowReads := Suc (nowReads s1)\<rparr>,
              \<lparr>status = 200,
               body = Industry
                 \<lparr>industries =
                    aggregateIndustries (snd (indexIndustries DEFAULT_INDUSTRY_DATA ([], Map.empty)))
                      [toStock (''TCS'', samplePayload 2 3500 ''Tata Consultancy Services'')],
                  industryCached = cached r,
                  industryTimestamp = clock mixedEnv (nowReads s1),
                  warning = None\<rparr>\<rparr>))"
proof -
  let ?nine = "[''TIMKEN'', ''PAYTM'', ''POLICYBZR'', ''PNBHOUSING'', ''POONAWALLA'', ''RELIANCE'',
                ''TCS'', ''PFC'', ''PEL'']"
  from fallback_endpoints [of "''ENOENT''" mixedEnv None freshSys] obtain g where
    start: "startServer (Inl ''ENOENT'') = Listening g"
    and market: "marketDataHandler mixedEnv g None freshSys =
          Some (freshSys, \<lparr>status = 500, body = Error ''No symbols loaded from NIFTY500.xlsx''\<rparr>)"
    and ind: "\<forall>s1 r. fetchEquityDetailsInBatches mixedEnv g ?nine
                   BATCH_SIZE (None = Some ''true'') freshSys = Some (s1, Inr r) \<and> results r \<noteq> [] \<longrightarrow>
           industryDataHandler mixedEnv g None freshSys =
             Some (s1\<lparr>nowReads := Suc (nowReads s1)\<rparr>,
                   \<lparr>status = 200,
                    body = Industry
                      \<lparr>industries =
                         aggregateIndustries (snd (indexIndustries DEFAULT_INDUSTRY_DATA ([], Map.empty)))
                           (results r),
                       industryCached = cached r,
                       industryTimestamp = clock mixedEnv (nowReads s1),
                       warning = None\<rparr>\<rparr>)"
    by blast
  from start have g: "g = fallbackRegistry" by (simp add: startServer_fallback)
  have nn: "\<forall>k symb v. getEquityDetails mixedEnv k symb = SyncThrow v \<longrightarrow> \<not> nullish v"
    by (simp add: mixedEnv_def mixedProvider_def)
  from fetch_returns_normally [OF nn BATCH_SIZE_pos] obtain s1 r where
    f: "fetchEquityDetailsInBatches mixedEnv fallbackRegistry ?nine BATCH_SIZE False freshSys
          = Some (s1, Inr r)"
    by blast
  have "quotesOf (fetchEquityDetailsInBatches mixedEnv fallbackRegistry ?nine BATCH_SIZE False freshSys)
          = Some [toStock (''TCS'', samplePayload 2 3500 ''Tata Consultancy Services'')]"
    by code_simp
  with f have res: "results r = [toStock (''TCS'', samplePayload 2 3500 ''Tata Consultancy Services'')]"
    by (simp add: quotesOf_def)
  from ind [rule_format, of s1 r] f res g
  have h: "industryDataHandler mixedEnv fallbackRegistry None freshSys =
        Some (s1\<lparr>nowReads := Suc (nowReads s1)\<rparr>,
              \<lparr>status = 200,
               body = Industry
                 \<lparr>industries =
                    aggregateIndustries (snd (indexIndustries DEFAULT_INDUSTRY_DATA ([], Map.empty)))
                      [toStock (''TCS'', samplePayload 2 3500 ''Tata Consultancy Services'')],
                  industryCached = cached r,
                  industryTimestamp = clock mixedEnv (nowReads s1),
                  warning = None\<rparr>\<rparr>)"
    by simp
  from market g have m: "marketDataHandler mixedEnv fallbackRegistry None freshSys =
     Some (freshSys, \<lparr>status = 500, body = Error ''No symbols loaded from NIFTY500.xlsx''\<rparr>)"
    by simp
  from f res h have "\<exists>s1 r. fetchEquityDetailsInBatches mixedEnv fallbackRegistry ?nine
              BATCH_SIZE False freshSys = Some (s1, Inr r) \<and>
      results r = [toStock (''TCS'', samplePayload 2 3500 ''Tata Consultancy Services'')] \<and>
      industryDataHandler mixedEnv fallbackRegistry None freshSys =
        Some (s1\<lparr>nowReads := Suc (nowReads s1)\<rparr>,
              \<lparr>status = 200,
               body = Industry
                 \<lparr>industries =
                    aggregateIndustries (snd (indexIndustries DEFAULT_INDUSTRY_DATA ([], Map.empty)))
                      [toStock (''TCS'', samplePayload 2 3500 ''Tata Consultancy Services'')],
                  industryCached = cached r,
                  industryTimestamp = clock mixedEnv (nowReads s1),
                  warning = None\<rparr>\<rparr>)"
    by (intro exI [of _ s1] exI [of _ r] conjI)
  with m show ?thesis by (rule conjI)
qed

text \<open>
  The claim as worded fails: after a failed read the registry's industries and symbols
  are not empty, and \<open>GET /api/market-data\<close> still answers with the registry-empty
  error.
\<close>

theorem fallback_endpoints_counterexample:
  "startServer (Inl ''ENOENT'') = Listening fallbackRegistry \<and>
   industryData fallbackRegistry \<noteq> [] \<and>
   ''TCS'' \<in> allSymbolsSet fallbackRegistry \<and>
   marketDataHandler mixedEnv fallbackRegistry None freshSys =
     Some (freshSys, \<lparr>status = 500, body = Error ''No symbols loaded from NIFTY500.xlsx''\<rparr>)"
proof -
  have "filterBoolean (map rowSymbol (nifty500Data fallbackRegistry)) = []"
    by (simp add: fallbackRegistry_def filterBoolean_def)
  from marketData_no_symbols [OF this, of mixedEnv None freshSys] startServer_fallback [of "''ENOENT''"]
  show ?thesis
    by (simp add: fallbackRegistry_def DEFAULT_INDUSTRY_DATA_def)
qed



end

